theory Spec2Isabelle
  imports Main "HOL-Library.Multiset"
begin

chapter \<open>A file-based request/response mailbox: model and properties\<close>

text \<open>
  The repository holds two configurations of one protocol.  The multi-instance
  configuration is \<^verbatim>\<open>server.cpp\<close> and \<^verbatim>\<open>client.cpp\<close> (record with a
  \<^verbatim>\<open>client_id\<close>, one mailbox file per server, discovery by file name).  The
  single-mailbox configuration is the server listed after the README and its client
  (record without \<^verbatim>\<open>client_id\<close>, the fixed file \<^verbatim>\<open>ipc.bin\<close>).

  Part I embeds the source functions.  Conventions of the embedding:
  \<^item> a C \<^verbatim>\<open>int\<close> is an \<^typ>\<open>int\<close>; where the source adds one to a counter that has
    no bound of its own, the 32-bit wrap-around is written out (\<open>wrap32\<close>);
  \<^item> a \<^verbatim>\<open>char\<close> is a \<^typ>\<open>char\<close> (one byte), a C string or \<^verbatim>\<open>std::string\<close> a
    \<^typ>\<open>string\<close>, \<^verbatim>\<open>std::string::npos\<close> and a null pointer are \<open>None\<close>;
  \<^item> the file behind a descriptor is a value of type \<open>fd_state\<close>: its bytes and
    what \<^verbatim>\<open>lseek\<close>, \<^verbatim>\<open>read\<close> and \<^verbatim>\<open>write\<close> answer;
  \<^item> a function writing through a reference parameter returns the new value of the
    parameter next to its result;
  \<^item> console output, sleeps and writes of a client exchange are recorded in order as
    a list of events;
  \<^item> \<^verbatim>\<open>std::sort\<close>, whose result the C++ standard leaves open in part, is a
    predicate on the list it is given and the list it leaves.
  Part II states and proves the properties.
\<close>

section \<open>Part I: the embedding\<close>

subsection \<open>Characters and strings\<close>

text \<open>\<^verbatim>\<open>std::tolower\<close> on an \<^verbatim>\<open>unsigned char\<close> in the "C" locale (the programs never
  call \<^verbatim>\<open>setlocale\<close>): the 26 capital letters are mapped, every other byte is kept.\<close>

definition tolower_c :: "char \<Rightarrow> char" where
  "tolower_c c =
     (case map_of (zip ''ABCDEFGHIJKLMNOPQRSTUVWXYZ'' ''abcdefghijklmnopqrstuvwxyz'') c of
        Some l \<Rightarrow> l
      | None \<Rightarrow> c)"

text \<open>The \<^verbatim>\<open>std::string\<close> a \<^verbatim>\<open>const char*\<close> into a buffer denotes: the bytes before
  the first NUL.  (A buffer without a NUL makes the C++ read past its end; the model
  stops at the end of the buffer.)\<close>

definition c_str :: "string \<Rightarrow> string" where
  "c_str buf = takeWhile (\<lambda>c. c \<noteq> CHR 0x00) buf"

text \<open>\<^verbatim>\<open>s.find_first_not_of(cs)\<close> and \<^verbatim>\<open>s.find_last_not_of(cs)\<close>: the first and the
  last position holding a character outside \<open>cs\<close>; \<open>None\<close> is \<^verbatim>\<open>npos\<close>.\<close>

fun find_first_not_of :: "string \<Rightarrow> string \<Rightarrow> nat option" where
  "find_first_not_of [] cs = None"
| "find_first_not_of (x # xs) cs =
     (if x \<in> set cs then map_option Suc (find_first_not_of xs cs) else Some 0)"

definition find_last_not_of :: "string \<Rightarrow> string \<Rightarrow> nat option" where
  "find_last_not_of s cs =
     (case find_first_not_of (rev s) cs of
        None \<Rightarrow> None
      | Some i \<Rightarrow> Some (length s - 1 - i))"

text \<open>\<^verbatim>\<open>s.find(c)\<close> for a character and \<^verbatim>\<open>s.find(t)\<close> for a string: the first position
  where it occurs.\<close>

fun find_char :: "string \<Rightarrow> char \<Rightarrow> nat option" where
  "find_char [] c = None"
| "find_char (x # xs) c = (if x = c then Some 0 else map_option Suc (find_char xs c))"

fun starts_with :: "string \<Rightarrow> string \<Rightarrow> bool" where
  "starts_with s [] = True"
| "starts_with [] (p # ps) = False"
| "starts_with (x # xs) (p # ps) = (x = p \<and> starts_with xs ps)"

fun find_str :: "string \<Rightarrow> string \<Rightarrow> nat option" where
  "find_str [] t = (if t = [] then Some 0 else None)"
| "find_str (x # xs) t =
     (if starts_with (x # xs) t then Some 0 else map_option Suc (find_str xs t))"

text \<open>\<^verbatim>\<open>s.substr(pos, n)\<close> for \<open>pos \<le> length s\<close> (every call of the source is in
  that range), and \<^verbatim>\<open>s.substr(pos)\<close>.\<close>

definition substr :: "string \<Rightarrow> nat \<Rightarrow> nat \<Rightarrow> string" where
  "substr s pos n = take n (drop pos s)"

definition substr_from :: "string \<Rightarrow> nat \<Rightarrow> string" where
  "substr_from s pos = drop pos s"


subsection \<open>Validation of a ping request (\<^verbatim>\<open>server.cpp\<close>, \<^verbatim>\<open>isValidPingRequest\<close>)\<close>

definition whitespace :: string where
  "whitespace = [CHR '' '', CHR 0x09, CHR 0x0A, CHR 0x0D]"

text \<open>The argument is \<open>None\<close> for a null pointer.  When \<open>find_first_not_of\<close> finds a
  position, so does \<open>find_last_not_of\<close> (lemma \<open>find_last_not_of_None_iff\<close>); the
  branch for \<^verbatim>\<open>npos\<close> there is never taken.\<close>

definition isValidPingRequest :: "string option \<Rightarrow> bool" where
  "isValidPingRequest text =
     (case text of
        None \<Rightarrow> False
      | Some request \<Rightarrow>
          (case find_first_not_of request whitespace of
             None \<Rightarrow> False
           | Some start \<Rightarrow>
               (case find_last_not_of request whitespace of
                  None \<Rightarrow> False
                | Some end_pos \<Rightarrow>
                    map tolower_c (substr request start (end_pos - start + 1)) = ''ping'')))"

text \<open>The two notions the specification uses for this check, written from its words:
  trimming surrounding whitespace (space, tab, newline, carriage return) from both
  ends, and equality of two texts up to the case of letters.\<close>

definition is_space :: "char \<Rightarrow> bool" where
  "is_space c = (c = CHR '' '' \<or> c = CHR 0x09 \<or> c = CHR 0x0A \<or> c = CHR 0x0D)"

definition trim :: "string \<Rightarrow> string" where
  "trim s = rev (dropWhile is_space (rev (dropWhile is_space s)))"

definition equals_ignoring_case :: "string \<Rightarrow> string \<Rightarrow> bool" where
  "equals_ignoring_case a b = (map tolower_c a = map tolower_c b)"

subsection \<open>C integers\<close>

text \<open>An \<^verbatim>\<open>int\<close> has 32 bits on the platforms of the source (Windows, POSIX).
  \<open>wrap32\<close> is the two's complement value an \<^verbatim>\<open>int\<close> holds after an operation
  whose mathematical result is \<open>x\<close>.  (Signed overflow is undefined in C++; the
  properties below that involve an increment assume it does not happen.)\<close>

definition INT_MAX :: int where
  "INT_MAX = 2147483647"

definition is_int32 :: "int \<Rightarrow> bool" where
  "is_int32 x = (- 2147483648 \<le> x \<and> x \<le> 2147483647)"

definition wrap32 :: "int \<Rightarrow> int" where
  "wrap32 x = (x + 2147483648) mod 4294967296 - 2147483648"

text \<open>The four bytes of an \<^verbatim>\<open>int\<close> in memory, least significant first (the
  platforms of the source are little-endian), and the \<^verbatim>\<open>int\<close> four bytes denote.\<close>

definition le32 :: "int \<Rightarrow> string" where
  "le32 x =
     (let u = x mod 4294967296
      in [char_of u, char_of (u div 256), char_of (u div 65536), char_of (u div 16777216)])"

definition of_le32 :: "string \<Rightarrow> int" where
  "of_le32 bs =
     wrap32 (of_char (bs ! 0) + 256 * of_char (bs ! 1)
             + 65536 * of_char (bs ! 2) + 16777216 * of_char (bs ! 3))"

subsection \<open>The exchange record and the file behind a descriptor\<close>

text \<open>\<^verbatim>\<open>struct Message { int status; int client_id; char data[256]; }\<close> of
  \<^verbatim>\<open>server.cpp\<close> and \<^verbatim>\<open>client.cpp\<close>: 264 bytes, no padding.\<close>

record Message =
  status :: int
  client_id :: int
  data :: string

definition sizeof_Message :: nat where
  "sizeof_Message = 264"

definition wf_Message :: "Message \<Rightarrow> bool" where
  "wf_Message m = (is_int32 (status m) \<and> is_int32 (client_id m) \<and> length (data m) = 256)"

text \<open>The object as bytes, and the object a 264-byte buffer holds.\<close>

definition encode :: "Message \<Rightarrow> string" where
  "encode m = le32 (status m) @ le32 (client_id m) @ data m"

definition decode :: "string \<Rightarrow> Message" where
  "decode bs = \<lparr> status = of_le32 (take 4 bs),
                 client_id = of_le32 (take 4 (drop 4 bs)),
                 data = take 256 (drop 8 bs) \<rparr>"

text \<open>\<^verbatim>\<open>Message msg{}\<close> and \<^verbatim>\<open>memset(&msg, 0, sizeof(Message))\<close>.\<close>

definition zero_Message :: Message where
  "zero_Message = \<lparr> status = 0, client_id = 0, data = replicate 256 (CHR 0x00) \<rparr>"

text \<open>\<^verbatim>\<open>strncpy(msg.data, src, sizeof(msg.data) - 1); msg.data[255] = '\0'\<close>: the
  first 255 bytes of the text, padded with NUL to 256 bytes.\<close>

definition strncpy_data :: "string \<Rightarrow> string" where
  "strncpy_data src = take 255 src @ replicate (256 - length (take 255 src)) (CHR 0x00)"

text \<open>The state of the file behind an open descriptor, as one call sees it: its bytes,
  whether \<^verbatim>\<open>lseek(fd, 0, SEEK_SET)\<close> answers -1, whether \<^verbatim>\<open>read\<close> answers -1, and
  what \<^verbatim>\<open>write\<close> does: \<open>None\<close> when it answers -1, \<open>Some k\<close> when the medium takes
  at most \<open>k\<close> bytes.  An invalid descriptor (-1) is a state whose seek fails.\<close>

record fd_state =
  fd_bytes :: string
  fd_seek_fails :: bool
  fd_read_fails :: bool
  fd_write_room :: "nat option"

text \<open>The two codec functions at the level of bytes; \<open>buf\<close> is the caller's object
  before the call.  \<^verbatim>\<open>read(fd, &msg, size)\<close> stores the \<open>r\<close> bytes it obtained at the
  start of the object; on \<open>r = 0\<close> the source zeroes the object.  \<^verbatim>\<open>write\<close> replaces
  the first bytes of the file.  (\<^verbatim>\<open>fsync\<close> changes nothing the model sees.)\<close>

definition read_record :: "nat \<Rightarrow> fd_state \<Rightarrow> string \<Rightarrow> bool \<times> string" where
  "read_record sz h buf =
     (if fd_seek_fails h then (False, buf)
      else if fd_read_fails h then (False, buf)
      else
        (let got = take sz (fd_bytes h); r = length got
         in if r = 0 then (True, replicate sz (CHR 0x00))
            else (r = sz, got @ drop r buf)))"

definition write_record :: "fd_state \<Rightarrow> string \<Rightarrow> bool \<times> fd_state" where
  "write_record h buf =
     (if fd_seek_fails h then (False, h)
      else
        (case fd_write_room h of
           None \<Rightarrow> (False, h)
         | Some k \<Rightarrow>
             (let put = take k buf; w = length put
              in (w = length buf, h\<lparr> fd_bytes := put @ drop w (fd_bytes h) \<rparr>))))"

text \<open>\<^verbatim>\<open>readMessage\<close> and \<^verbatim>\<open>writeMessage\<close> of \<^verbatim>\<open>server.cpp\<close> and \<^verbatim>\<open>client.cpp\<close> (the two
  files have the same text).  \<open>readMessage h msg\<close> is the result and the caller's
  \<^verbatim>\<open>msg\<close> after the call.\<close>

definition readMessage :: "fd_state \<Rightarrow> Message \<Rightarrow> bool \<times> Message" where
  "readMessage h msg =
     (case read_record sizeof_Message h (encode msg) of (ok, bs) \<Rightarrow> (ok, decode bs))"

definition writeMessage :: "fd_state \<Rightarrow> Message \<Rightarrow> bool \<times> fd_state" where
  "writeMessage h msg = write_record h (encode msg)"

text \<open>The number of bytes the \<^verbatim>\<open>read\<close> inside \<open>readMessage\<close> obtains when it does
  not fail.\<close>

definition bytes_obtained :: "fd_state \<Rightarrow> nat" where
  "bytes_obtained h = length (take sizeof_Message (fd_bytes h))"

text \<open>A file whose calls all succeed.\<close>

definition healthy :: "fd_state \<Rightarrow> bool" where
  "healthy h = (\<not> fd_seek_fails h \<and> \<not> fd_read_fails h
                \<and> (case fd_write_room h of None \<Rightarrow> False | Some k \<Rightarrow> sizeof_Message \<le> k))"

text \<open>A healthy file holding exactly the record \<open>m\<close>.\<close>

definition file_of :: "Message \<Rightarrow> fd_state" where
  "file_of m = \<lparr> fd_bytes = encode m, fd_seek_fails = False, fd_read_fails = False,
                 fd_write_room = Some sizeof_Message \<rparr>"

subsection \<open>Numbers as text\<close>

text \<open>\<^verbatim>\<open>std::to_string(int)\<close>: decimal digits, a minus sign for a negative number.\<close>

definition digit_char :: "nat \<Rightarrow> char" where
  "digit_char d = ''0123456789'' ! d"

fun dec_digits :: "nat \<Rightarrow> string" where
  "dec_digits n =
     (if n < 10 then [digit_char n] else dec_digits (n div 10) @ [digit_char (n mod 10)])"

declare dec_digits.simps [simp del]

definition to_string :: "int \<Rightarrow> string" where
  "to_string i = (if i < 0 then CHR ''-'' # dec_digits (nat (- i)) else dec_digits (nat i))"

text \<open>\<^verbatim>\<open>std::stoi(s)\<close>, which is \<^verbatim>\<open>strtol\<close> in base 10 and a range check: leading
  white space (\<^verbatim>\<open>isspace\<close>) is skipped, one sign is read, then the longest run of
  digits; what follows the digits is ignored.  \<open>None\<close> stands for the two exceptions:
  \<^verbatim>\<open>invalid_argument\<close> when there is no digit, \<^verbatim>\<open>out_of_range\<close> when the number is
  no \<^verbatim>\<open>int\<close>.\<close>

definition is_cspace :: "char \<Rightarrow> bool" where
  "is_cspace c = (c \<in> set [CHR '' '', CHR 0x09, CHR 0x0A, CHR 0x0B, CHR 0x0C, CHR 0x0D])"

definition is_digit :: "char \<Rightarrow> bool" where
  "is_digit c = (c \<in> set ''0123456789'')"

definition digit_val :: "char \<Rightarrow> int" where
  "digit_val c = of_char c - 48"

definition read_sign :: "string \<Rightarrow> bool \<times> string" where
  "read_sign s =
     (case s of
        [] \<Rightarrow> (False, [])
      | c # r \<Rightarrow>
          if c = CHR ''-'' then (True, r)
          else if c = CHR ''+'' then (False, r)
          else (False, s))"

definition stoi :: "string \<Rightarrow> int option" where
  "stoi s =
     (case read_sign (dropWhile is_cspace s) of
        (neg, s2) \<Rightarrow>
          (let ds = takeWhile is_digit s2
           in if ds = [] then None
              else
                (let v = foldl (\<lambda>a c. 10 * a + digit_val c) 0 ds;
                     n = (if neg then - v else v)
                 in if is_int32 n then Some n else None)))"

text \<open>The value of a run of decimal digits, as \<^verbatim>\<open>strtol\<close> accumulates it.\<close>

definition decimal_value :: "string \<Rightarrow> int" where
  "decimal_value ds = foldl (\<lambda>a c. 10 * a + digit_val c) 0 ds"

subsection \<open>The multi-instance server (\<^verbatim>\<open>server.cpp\<close>, \<^verbatim>\<open>main\<close>)\<close>

text \<open>The globals of the server that the loop of \<^verbatim>\<open>main\<close> changes or reads.
  \<^verbatim>\<open>connectedClients\<close> is a \<^verbatim>\<open>std::set<int>\<close>.\<close>

record server_state =
  nextClientId :: int
  connectedClients :: "int set"
  clientCounter :: int
  serverInstanceNumber :: int

text \<open>The globals as initialised, for a server with instance number \<open>n\<close>.\<close>

definition initial_server :: "int \<Rightarrow> server_state" where
  "initial_server n = \<lparr> nextClientId = 1, connectedClients = {}, clientCounter = 0,
                         serverInstanceNumber = n \<rparr>"

definition invalid_ping_text :: string where
  "invalid_ping_text = ''ERROR: Only 'ping' is accepted''"

text \<open>Lines 261 to 280: the block under \<^verbatim>\<open>clientMutex\<close>.  The result is the globals,
  \<^verbatim>\<open>msg\<close> and \<^verbatim>\<open>isNewClient\<close>.\<close>

definition assign_client :: "server_state \<Rightarrow> Message \<Rightarrow> server_state \<times> Message \<times> bool" where
  "assign_client s msg =
     (if client_id msg = 0 then
        (let msg1 = msg \<lparr> client_id := nextClientId s \<rparr>;
             s1 = s \<lparr> nextClientId := wrap32 (nextClientId s + 1) \<rparr>;
             s2 = s1 \<lparr> connectedClients := insert (client_id msg1) (connectedClients s1) \<rparr>;
             s3 = s2 \<lparr> clientCounter := wrap32 (int (card (connectedClients s2))) \<rparr>
         in (s3, msg1, True))
      else if client_id msg > 0 \<and> client_id msg \<notin> connectedClients s then
        (let s2 = s \<lparr> connectedClients := insert (client_id msg) (connectedClients s) \<rparr>;
             s3 = s2 \<lparr> clientCounter := wrap32 (int (card (connectedClients s2))) \<rparr>
         in (s3, msg, True))
      else (s, msg, False))"

definition pong_text :: "int \<Rightarrow> int \<Rightarrow> string" where
  "pong_text server client =
     ''pong from server #'' @ to_string server @ '' to client #'' @ to_string client"

text \<open>Lines 245 to 304: the body of the loop of \<^verbatim>\<open>main\<close> once the inner loop has read
  a record \<open>msg\<close> with status 1; \<open>h\<close> is the file at the time of the write.  The result
  is the globals, the record handed to \<^verbatim>\<open>writeMessage\<close>, and what \<^verbatim>\<open>writeMessage\<close>
  answers: its result and the file.  (Log lines and the pause of 50 ms are left out:
  they change neither the globals nor the file.)\<close>

definition server_handle_request ::
    "server_state \<Rightarrow> fd_state \<Rightarrow> Message \<Rightarrow> server_state \<times> Message \<times> bool \<times> fd_state" where
  "server_handle_request s h msg =
     (if \<not> isValidPingRequest (Some (c_str (data msg))) then
        (let msg1 = msg \<lparr> status := 2, client_id := client_id msg,
                           data := strncpy_data invalid_ping_text \<rparr>
         in (s, msg1, writeMessage h msg1))
      else
        (case assign_client s msg of
           (s1, msg1, isNewClient) \<Rightarrow>
             (let response = pong_text (serverInstanceNumber s1) (client_id msg1);
                  msg2 = msg1 \<lparr> status := 2, data := strncpy_data response \<rparr>
              in (s1, msg2, writeMessage h msg2))))"

text \<open>The outer loop of \<^verbatim>\<open>main\<close> over the requests it reads one after the other, each
  with the file at the time of its answer.  The result is the globals at the end and the
  records handed to \<^verbatim>\<open>writeMessage\<close>, in order.\<close>

fun server_run :: "server_state \<Rightarrow> (fd_state \<times> Message) list \<Rightarrow> server_state \<times> Message list" where
  "server_run s [] = (s, [])"
| "server_run s ((h, msg) # rest) =
     (case server_handle_request s h msg of
        (s1, out, ok, h1) \<Rightarrow>
          (case server_run s1 rest of
             (s2, outs) \<Rightarrow> (s2, out # outs)))"

subsection \<open>The single-mailbox server (the listing after the README, \<^verbatim>\<open>main\<close>)\<close>

text \<open>\<^verbatim>\<open>struct Message { int status; char data[256]; }\<close>: 260 bytes.\<close>

record SMessage =
  s_status :: int
  s_data :: string

definition encode_simple :: "SMessage \<Rightarrow> string" where
  "encode_simple m = le32 (s_status m) @ s_data m"

definition decode_simple :: "string \<Rightarrow> SMessage" where
  "decode_simple bs = \<lparr> s_status = of_le32 (take 4 bs), s_data = take 256 (drop 4 bs) \<rparr>"


definition readMessage_simple :: "fd_state \<Rightarrow> SMessage \<Rightarrow> bool \<times> SMessage" where
  "readMessage_simple h msg =
     (case read_record 260 h (encode_simple msg) of (ok, bs) \<Rightarrow> (ok, decode_simple bs))"

definition writeMessage_simple :: "fd_state \<Rightarrow> SMessage \<Rightarrow> bool \<times> fd_state" where
  "writeMessage_simple h msg = write_record h (encode_simple msg)"

definition isValidRequest :: "string option \<Rightarrow> bool" where
  "isValidRequest text =
     (case text of
        None \<Rightarrow> False
      | Some t \<Rightarrow> if t = [] then False else if length t < 4 then False else True)"

definition extractRequestNumber :: "string \<Rightarrow> int" where
  "extractRequestNumber request =
     (case request of
        [] \<Rightarrow> - 1
      | c # r \<Rightarrow>
          if c \<noteq> CHR ''['' then - 1
          else (case stoi r of Some n \<Rightarrow> n | None \<Rightarrow> - 1))"

definition extractRequestText :: "string \<Rightarrow> string" where
  "extractRequestText request =
     (case find_char request (CHR '']'') of
        None \<Rightarrow> []
      | Some i \<Rightarrow>
          (case drop (i + 1) request of
             [] \<Rightarrow> []
           | c # r \<Rightarrow> if c \<noteq> CHR '' '' then [] else r))"

text \<open>\<^verbatim>\<open>processRequest\<close>: the response and the \<^verbatim>\<open>error\<close> flag.  (The pauses it
  makes are left out.)\<close>

definition processRequest :: "string \<Rightarrow> string \<times> bool" where
  "processRequest request =
     (let reqNumber = extractRequestNumber request;
          reqText = extractRequestText request
      in if reqNumber = - 1 \<or> reqText = [] then (''ERROR: Invalid request format'', True)
         else if reqText = ''error'' then (''ERROR: Simulated processing error'', True)
         else if reqText = ''timeout'' then (''Response after timeout simulation'', False)
         else if reqText = ''crash'' then (''This should not be reached'', False)
         else if reqText = ''invalid'' then ([], False)
         else (''OK'', False))"

record simple_server_state =
  processedRequests :: int
  errorCount :: int

text \<open>The body of the loop of \<^verbatim>\<open>main\<close> once the inner loop has read a record with
  status 1, from \<^verbatim>\<open>processedRequests++\<close> on.\<close>

definition simple_server_handle_request ::
    "simple_server_state \<Rightarrow> fd_state \<Rightarrow> SMessage
       \<Rightarrow> simple_server_state \<times> SMessage \<times> bool \<times> fd_state" where
  "simple_server_handle_request s h msg =
     (let s1 = s \<lparr> processedRequests := wrap32 (processedRequests s + 1) \<rparr>
      in if \<not> isValidRequest (Some (c_str (s_data msg))) then
           (let s2 = s1 \<lparr> errorCount := wrap32 (errorCount s1 + 1) \<rparr>;
                msg1 = msg \<lparr> s_status := 2,
                              s_data := strncpy_data ''ERROR: Invalid request format'' \<rparr>
            in (s2, msg1, writeMessage_simple h msg1))
         else
           (case processRequest (c_str (s_data msg)) of
              (response, processingError) \<Rightarrow>
                (let s2 = (if processingError
                           then s1 \<lparr> errorCount := wrap32 (errorCount s1 + 1) \<rparr> else s1);
                     msg1 = msg \<lparr> s_status := 2, s_data := strncpy_data response \<rparr>
                 in case writeMessage_simple h msg1 of
                      (ok, h1) \<Rightarrow>
                        ((if ok then s2 else s2 \<lparr> errorCount := wrap32 (errorCount s2 + 1) \<rparr>),
                         msg1, ok, h1))))"

subsection \<open>Discovery (\<^verbatim>\<open>client.cpp\<close>): the liveness check\<close>

text \<open>What \<^verbatim>\<open>open(name, O_RDWR)\<close> answers for every name: the file behind the new
  descriptor, or \<open>None\<close> when it answers -1.\<close>

type_synonym files = "string \<Rightarrow> fd_state option"

definition checkServerAvailability :: "files \<Rightarrow> string \<Rightarrow> bool" where
  "checkServerAvailability fs filename =
     (case fs filename of
        None \<Rightarrow> False
      | Some h \<Rightarrow>
          (case readMessage h zero_Message of
             (ok, msg) \<Rightarrow> if ok then status msg = 0 \<or> status msg = 2 else False))"

subsection \<open>Discovery (\<^verbatim>\<open>client.cpp\<close>): enumeration and selection\<close>

definition SERVER_FILE_PREFIX :: string where
  "SERVER_FILE_PREFIX = ''ipc_server_''"











subsection \<open>The start of a server (\<^verbatim>\<open>server.cpp\<close>, \<^verbatim>\<open>findMaxServerNumber\<close> and \<^verbatim>\<open>main\<close>)\<close>

text \<open>The number the loop body of \<^verbatim>\<open>findMaxServerNumber\<close> extracts from one directory
  entry; \<open>None\<close> when the entry is passed over: no prefix, no dot after the prefix,
  or \<^verbatim>\<open>stoi\<close> throws.\<close>

definition entry_number :: "string \<Rightarrow> int option" where
  "entry_number filename =
     (if find_str filename SERVER_FILE_PREFIX = Some 0 then
        (let numStr = substr_from filename (length SERVER_FILE_PREFIX)
         in case find_char numStr (CHR ''.'') of
              None \<Rightarrow> None
            | Some dotPos \<Rightarrow> stoi (substr numStr 0 dotPos))
      else None)"

definition scan_entry :: "int \<Rightarrow> string \<Rightarrow> int" where
  "scan_entry maxNumber filename =
     (case entry_number filename of
        None \<Rightarrow> maxNumber
      | Some num \<Rightarrow> if num > maxNumber then num else maxNumber)"

definition findMaxServerNumber :: "string list \<Rightarrow> int" where
  "findMaxServerNumber dir = foldl scan_entry 0 dir"

text \<open>What the two \<^verbatim>\<open>open\<close> calls of \<^verbatim>\<open>main\<close> answer for a name: the first with
  \<^verbatim>\<open>O_RDWR | O_CREAT | O_EXCL\<close>, the second with \<^verbatim>\<open>O_RDWR\<close>; \<open>None\<close> is the answer -1.\<close>

datatype open_mode = CreateExclusive | OpenExisting

type_synonym opener = "open_mode \<Rightarrow> string \<Rightarrow> fd_state option"

text \<open>The answers over a directory that nobody else changes: a map from the names that
  exist to their bytes.  Exclusive creation fails on a name that exists and makes an
  empty file otherwise; plain opening needs the name to exist.\<close>

definition open_in :: "(string \<Rightarrow> string option) \<Rightarrow> opener" where
  "open_in d mode name =
     (case mode of
        CreateExclusive \<Rightarrow>
          (case d name of
             Some bytes \<Rightarrow> None
           | None \<Rightarrow> Some \<lparr> fd_bytes = [], fd_seek_fails = False, fd_read_fails = False,
                             fd_write_room = Some sizeof_Message \<rparr>)
      | OpenExisting \<Rightarrow>
          (case d name of
             Some bytes \<Rightarrow> Some \<lparr> fd_bytes = bytes, fd_seek_fails = False,
                                   fd_read_fails = False, fd_write_room = Some sizeof_Message \<rparr>
           | None \<Rightarrow> None))"

text \<open>Lines 190 to 222 of \<^verbatim>\<open>main\<close>: the instance number, the file name, the two calls
  of \<^verbatim>\<open>open\<close>, and the initialisation of a file that is shorter than a record.
  \<open>StartFailed\<close> is \<^verbatim>\<open>return 1\<close>; \<open>Started n name created h\<close> is the server entering
  its loop with instance number \<open>n\<close> on the file \<open>h\<close> called \<open>name\<close>, \<open>created\<close>
  telling whether the exclusive creation succeeded.  (\<^verbatim>\<open>lseek(fd, 0, SEEK_END)\<close> answers
  the length of the file, or -1 on a file whose seeks fail; -1 is below the size of a
  record.  Log lines are left out.)\<close>

datatype start_result = StartFailed | Started int string bool fd_state

definition instance_number :: "string list \<Rightarrow> int" where
  "instance_number dir = wrap32 (findMaxServerNumber dir + 1)"

definition mailbox_name :: "int \<Rightarrow> string" where
  "mailbox_name n = SERVER_FILE_PREFIX @ to_string n @ ''.bin''"

definition server_start :: "string list \<Rightarrow> opener \<Rightarrow> start_result" where
  "server_start dir sys =
     (let n = instance_number dir;
          name = mailbox_name n;
          opened =
            (case sys CreateExclusive name of
               Some h \<Rightarrow> Some (True, h)
             | None \<Rightarrow>
                 (case sys OpenExisting name of
                    Some h \<Rightarrow> Some (False, h)
                  | None \<Rightarrow> None))
      in case opened of
           None \<Rightarrow> StartFailed
         | Some (created, h) \<Rightarrow>
             if fd_seek_fails h \<or> length (fd_bytes h) < sizeof_Message then
               (case writeMessage h zero_Message of
                  (ok, h1) \<Rightarrow> if ok then Started n name created h1 else StartFailed)
             else Started n name created h)"

subsection \<open>One exchange of the multi-instance client (\<^verbatim>\<open>client.cpp\<close>, \<^verbatim>\<open>main\<close>)\<close>

text \<open>What a client does that others can see, in the order it does it: a line on the
  console, a pause in milliseconds, a call of \<^verbatim>\<open>writeMessage\<close> with its record and
  its result.\<close>

datatype 'm event = Print string | Sleep nat | Write 'm bool

text \<open>What a client finds when it looks: the flag \<^verbatim>\<open>running\<close> (a signal handler
  clears it), the mailbox file at that moment (the server and other clients write to
  it in between), and the milliseconds on the clock since \<^verbatim>\<open>start\<close>.  Every turn of
  a polling loop and every write takes the next element of a list of these; a write
  looks at the file only.\<close>

record tick =
  running :: bool
  mailbox :: fd_state
  elapsed :: int

definition MAX_WAIT_ATTEMPTS :: int where
  "MAX_WAIT_ATTEMPTS = 5"

text \<open>Lines 356 to 367, the loop waiting for a free server.  The result is
  \<^verbatim>\<open>waitAttempts\<close>, \<^verbatim>\<open>msg\<close>, the elements not yet used and the events; \<open>None\<close> when
  the list ends while the loop is still turning.  (The source tests \<^verbatim>\<open>running\<close>
  before the counter; once the counter has reached the maximum the flag does not
  matter, and the model does not look at it.)\<close>

fun wait_for_free ::
    "tick list \<Rightarrow> int \<Rightarrow> Message \<Rightarrow> (int \<times> Message \<times> tick list \<times> Message event list) option" where
  "wait_for_free [] waitAttempts msg =
     (if waitAttempts < MAX_WAIT_ATTEMPTS then None else Some (waitAttempts, msg, [], []))"
| "wait_for_free (t # rest) waitAttempts msg =
     (if \<not> waitAttempts < MAX_WAIT_ATTEMPTS then Some (waitAttempts, msg, t # rest, [])
      else if \<not> running t then Some (waitAttempts, msg, rest, [])
      else
        (case readMessage (mailbox t) msg of
           (ok, msg1) \<Rightarrow>
             if \<not> ok then Some (waitAttempts, msg1, rest, [])
             else if status msg1 = 0 then Some (waitAttempts, msg1, rest, [])
             else
               (case wait_for_free rest (waitAttempts + 1) msg1 of
                  None \<Rightarrow> None
                | Some (a, m, r, ev) \<Rightarrow> Some (a, m, r, Sleep 100 # ev))))"

text \<open>Lines 391 to 413, the loop waiting for the response.  The result is
  \<^verbatim>\<open>timeout\<close>, \<^verbatim>\<open>gotResponse\<close>, \<^verbatim>\<open>currentClientId\<close>, \<^verbatim>\<open>msg\<close>, the elements not yet
  used and the events.\<close>

fun await_response ::
    "tick list \<Rightarrow> int \<Rightarrow> Message
       \<Rightarrow> (bool \<times> bool \<times> int \<times> Message \<times> tick list \<times> Message event list) option" where
  "await_response [] currentClientId msg = None"
| "await_response (t # rest) currentClientId msg =
     (if \<not> running t then Some (False, False, currentClientId, msg, rest, [])
      else
        (case readMessage (mailbox t) msg of
           (ok, msg1) \<Rightarrow>
             if \<not> ok then Some (False, False, currentClientId, msg1, rest, [])
             else if status msg1 = 2 then
               (if client_id msg1 > 0 \<and> currentClientId = 0 then
                  Some (False, True, client_id msg1, msg1, rest,
                        [Print (''Server assigned Client ID: '' @ to_string (client_id msg1))])
                else Some (False, True, currentClientId, msg1, rest, []))
             else if elapsed t > 5000 then Some (True, False, currentClientId, msg1, rest, [])
             else
               (case await_response rest currentClientId msg1 of
                  None \<Rightarrow> None
                | Some (tmo, got, cid, m, r, ev) \<Rightarrow> Some (tmo, got, cid, m, r, Sleep 100 # ev))))"

text \<open>How an exchange ends: the server stayed busy; the request could not be written;
  no response came in time; a response came; the loop waiting for the response was
  left without one (a failed read, or \<^verbatim>\<open>running\<close> cleared); or the list of what the
  client finds ended first.\<close>

datatype outcome = Busy | SendFailed | TimedOut | Answered | Abandoned | Pending

text \<open>The record of lines 375 to 379 and the record of the resets (lines 419 to 421 and
  431 to 433).\<close>

definition request_record :: "int \<Rightarrow> string \<Rightarrow> Message" where
  "request_record currentClientId command =
     zero_Message \<lparr> status := 1, client_id := currentClientId, data := strncpy_data command \<rparr>"

definition free_record :: "Message \<Rightarrow> int \<Rightarrow> Message" where
  "free_record msg currentClientId =
     msg \<lparr> status := 0, client_id := currentClientId, data := replicate 256 (CHR 0x00) \<rparr>"

text \<open>Lines 350 to 434: one turn of the loop of \<^verbatim>\<open>main\<close> for a command that is sent.
  The result is how the turn ends, the events, \<^verbatim>\<open>currentClientId\<close> afterwards, and
  the mailbox file as the last write of the turn left it (\<open>None\<close> when the turn wrote
  nothing).\<close>

definition ping_exchange ::
    "int \<Rightarrow> string \<Rightarrow> tick list \<Rightarrow> outcome \<times> Message event list \<times> int \<times> fd_state option" where
  "ping_exchange currentClientId command ticks =
     (case wait_for_free ticks 0 zero_Message of
        None \<Rightarrow> (Pending, [], currentClientId, None)
      | Some (waitAttempts, msg0, ticks1, ev1) \<Rightarrow>
          if waitAttempts \<ge> MAX_WAIT_ATTEMPTS then
            (Busy, ev1 @ [Print ''Server is busy.''], currentClientId, None)
          else
            (let msg = request_record currentClientId command
             in case ticks1 of
                  [] \<Rightarrow> (Pending, ev1, currentClientId, None)
                | t # ticks2 \<Rightarrow>
                    (case writeMessage (mailbox t) msg of
                       (sent, h1) \<Rightarrow>
                         if \<not> sent then
                           (SendFailed, ev1 @ [Write msg False, Print ''Failed to send ping.''],
                            currentClientId, Some h1)
                         else
                           (case await_response ticks2 currentClientId msg of
                              None \<Rightarrow> (Pending, ev1 @ [Write msg True], currentClientId, Some h1)
                            | Some (timeout, gotResponse, cid, msg1, ticks3, ev2) \<Rightarrow>
                                (case ticks3 of
                                   [] \<Rightarrow> (Pending, ev1 @ [Write msg True] @ ev2, cid, Some h1)
                                 | t3 # ticks4 \<Rightarrow>
                                     (case writeMessage (mailbox t3) (free_record msg1 cid) of
                                        (ok, h3) \<Rightarrow>
                                          if timeout then
                                            (TimedOut,
                                             ev1 @ [Write msg True] @ ev2
                                               @ [Print ''Timeout waiting for response.'',
                                                  Write (free_record msg1 cid) ok],
                                             cid, Some h3)
                                          else
                                            ((if gotResponse then Answered else Abandoned),
                                             ev1 @ [Write msg True] @ ev2
                                               @ (if gotResponse \<and> c_str (data msg1) \<noteq> []
                                                  then [Print (''Response: '' @ c_str (data msg1))]
                                                  else [])
                                               @ [Write (free_record msg1 cid) ok],
                                             cid, Some h3)))))))"

text \<open>The status a call of \<^verbatim>\<open>readMessage\<close> on a file observes: \<open>None\<close> when the
  call fails (seek or read error, or a short read), the status of the record at the
  start of the file when it is read in full, and 0 for an empty file.\<close>

definition observed_status :: "fd_state \<Rightarrow> int option" where
  "observed_status h =
     (if fd_seek_fails h \<or> fd_read_fails h then None
      else if bytes_obtained h = sizeof_Message
        then Some (status (decode (take sizeof_Message (fd_bytes h))))
      else if bytes_obtained h = 0 then Some 0
      else None)"

subsection \<open>One exchange of the single-mailbox client (the file without a name)\<close>

text \<open>What this client finds when it looks: the same, and also what
  \<^verbatim>\<open>strerror(errno)\<close> says after a call that answered -1, and whether \<^verbatim>\<open>fsync\<close>
  answers -1.\<close>

record simple_tick = tick +
  error_text :: string
  fsync_fails :: bool

text \<open>\<^verbatim>\<open>readMessage\<close> and \<^verbatim>\<open>writeMessage\<close> of this client: the codec of the 260-byte
  record, and the lines the two functions print themselves.  The results are the
  answer, the caller's \<^verbatim>\<open>msg\<close> or the file after the call, and the lines.\<close>

definition readMessage_simple_client ::
    "simple_tick \<Rightarrow> SMessage \<Rightarrow> bool \<times> SMessage \<times> string list" where
  "readMessage_simple_client t msg =
     (case readMessage_simple (mailbox t) msg of
        (ok, msg1) \<Rightarrow>
          (ok, msg1,
           if fd_seek_fails (mailbox t) then [''Client: lseek error: '' @ error_text t]
           else if fd_read_fails (mailbox t) then [''Client: read error: '' @ error_text t]
           else []))"



text \<open>Lines 198 to 217, the loop waiting for the response: \<^verbatim>\<open>timeout\<close>,
  \<^verbatim>\<open>gotResponse\<close>, \<^verbatim>\<open>msg\<close>, the elements not yet used and the events.\<close>

fun simple_await_response ::
    "simple_tick list \<Rightarrow> SMessage
       \<Rightarrow> (bool \<times> bool \<times> SMessage \<times> simple_tick list \<times> SMessage event list) option" where
  "simple_await_response [] msg = None"
| "simple_await_response (t # rest) msg =
     (if \<not> running t then Some (False, False, msg, rest, [])
      else
        (case readMessage_simple_client t msg of
           (ok, msg1, lines) \<Rightarrow>
             if \<not> ok then
               (case simple_await_response rest msg1 of
                  None \<Rightarrow> None
                | Some (tmo, got, m, r, ev) \<Rightarrow>
                    Some (tmo, got, m, r,
                          map Print lines
                            @ Print ''Client: Error reading response'' # Sleep 100 # ev))
             else if s_status msg1 = 2 then Some (False, True, msg1, rest, map Print lines)
             else if elapsed t > 10000 then Some (True, False, msg1, rest, map Print lines)
             else
               (case simple_await_response rest msg1 of
                  None \<Rightarrow> None
                | Some (tmo, got, m, r, ev) \<Rightarrow>
                    Some (tmo, got, m, r, map Print lines @ Sleep 100 # ev))))"

text \<open>The status a call of \<^verbatim>\<open>readMessage\<close> observes, for the record of 260 bytes.\<close>

definition simple_observed_status :: "fd_state \<Rightarrow> int option" where
  "simple_observed_status h =
     (if fd_seek_fails h \<or> fd_read_fails h then None
      else if 260 \<le> length (fd_bytes h) then Some (of_le32 (take 4 (fd_bytes h)))
      else if fd_bytes h = [] then Some 0
      else None)"





section \<open>Part II: properties\<close>

subsection \<open>Request validation\<close>

lemma find_first_not_of_eq:
  "find_first_not_of s cs =
     (if \<forall>c\<in>set s. c \<in> set cs then None
      else Some (length (takeWhile (\<lambda>c. c \<in> set cs) s)))"
  by (induction s) auto

lemma find_last_not_of_None_iff:
  "find_last_not_of s cs = None \<longleftrightarrow> find_first_not_of s cs = None"
  by (simp add: find_last_not_of_def find_first_not_of_eq split: option.splits)

lemma mem_whitespace: "c \<in> set whitespace \<longleftrightarrow> is_space c"
  by (auto simp: whitespace_def is_space_def)

lemma takeWhile_rev_sandwich:
  assumes "\<forall>c\<in>set w. P c" and "core \<noteq> []" and "\<not> P (last core)"
  shows "takeWhile P (rev (pre @ core @ w)) = rev w"
proof (cases core rule: rev_cases)
  case Nil
  with assms(2) show ?thesis by simp
next
  case (snoc ys y)
  have "takeWhile P (rev w @ y # rev ys @ rev pre) = rev w @ takeWhile P (y # rev ys @ rev pre)"
    by (rule takeWhile_append2) (use assms(1) in auto)
  with snoc assms(3) show ?thesis by simp
qed

text \<open>Cutting by the two positions the source computes is trimming both ends.\<close>

lemma cut_is_trim:
  assumes "\<not> (\<forall>c\<in>set s. P c)"
  shows "take (length s - 1 - length (takeWhile P (rev s)) - length (takeWhile P s) + 1)
           (drop (length (takeWhile P s)) s)
         = rev (dropWhile P (rev (dropWhile P s)))"
proof -
  define w1 where "w1 = takeWhile P s"
  define t where "t = dropWhile P s"
  define core where "core = rev (dropWhile P (rev t))"
  define w2 where "w2 = rev (takeWhile P (rev t))"
  have s_split: "s = w1 @ t" by (simp add: w1_def t_def)
  have t_ne: "t \<noteq> []" using assms by (auto simp: t_def)
  have hd_t: "\<not> P (hd t)" using t_ne unfolding t_def by (rule hd_dropWhile)
  have t_split: "t = core @ w2"
    unfolding core_def w2_def by (metis rev_append rev_rev_ident takeWhile_dropWhile_id)
  have "\<exists>c\<in>set (rev t). \<not> P c" using t_ne hd_t by (auto intro: bexI[of _ "hd t"])
  then have drt: "dropWhile P (rev t) \<noteq> []" by auto
  then have core_ne: "core \<noteq> []" by (simp add: core_def)
  have last_core: "\<not> P (last core)"
    unfolding core_def using drt by (simp add: last_rev hd_dropWhile)
  have w2_P: "\<forall>c\<in>set w2. P c" unfolding w2_def by (auto dest: set_takeWhileD)
  have b: "takeWhile P (rev s) = rev w2"
    unfolding s_split t_split by (rule takeWhile_rev_sandwich[OF w2_P core_ne last_core])
  have len: "length s = length w1 + length core + length w2"
    by (simp add: s_split t_split)
  have "length core > 0" using core_ne by simp
  then have n: "length s - 1 - length (takeWhile P (rev s)) - length (takeWhile P s) + 1
                  = length core"
    unfolding b using len by (simp add: w1_def[symmetric])
  have "take (length core) (drop (length w1) s) = core"
    by (simp add: s_split t_split)
  then show ?thesis unfolding n by (simp add: w1_def[symmetric] core_def t_def)
qed

lemma trim_all_space:
  assumes "\<forall>c\<in>set s. is_space c"
  shows "trim s = []"
proof -
  have d: "dropWhile is_space s = []" using assms by simp
  show ?thesis unfolding trim_def d by simp
qed

lemma isValidPingRequest_trim:
  "isValidPingRequest (Some s) \<longleftrightarrow> map tolower_c (trim s) = ''ping''"
proof (cases "\<forall>c\<in>set s. is_space c")
  case True
  then show ?thesis
    by (simp add: isValidPingRequest_def find_first_not_of_eq mem_whitespace trim_all_space)
next
  case False
  then have r: "\<not> (\<forall>c\<in>set (rev s). is_space c)" by simp
  have f: "find_first_not_of s whitespace = Some (length (takeWhile is_space s))"
    using False by (simp add: find_first_not_of_eq mem_whitespace)
  have l: "find_last_not_of s whitespace
             = Some (length s - 1 - length (takeWhile is_space (rev s)))"
    using r by (simp add: find_last_not_of_def find_first_not_of_eq mem_whitespace)
  show ?thesis
    unfolding isValidPingRequest_def option.case f l substr_def trim_def
      cut_is_trim[of s is_space, OF False] ..
qed

text \<open>
  \<^bold>\<open>C6.\<close>  The multi-instance server accepts a payload exactly when, after trimming
  whitespace (space, tab, newline, carriage return) from both ends, what is left
  equals \<open>ping\<close> up to the case of letters.  A payload that is empty or consists of
  whitespace only is rejected, and so is a null pointer.
\<close>

theorem isValidPingRequest_iff_trimmed_ping:
  "(isValidPingRequest (Some s) \<longleftrightarrow> equals_ignoring_case (trim s) ''ping'')
   \<and> ((\<forall>c\<in>set s. is_space c) \<longrightarrow> \<not> isValidPingRequest (Some s))
   \<and> \<not> isValidPingRequest (Some [])
   \<and> \<not> isValidPingRequest None"
proof -
  have lower: "map tolower_c ''ping'' = ''ping''"
    by (simp add: tolower_c_def)
  have a: "isValidPingRequest (Some s) \<longleftrightarrow> equals_ignoring_case (trim s) ''ping''"
    unfolding equals_ignoring_case_def lower by (rule isValidPingRequest_trim)
  have b: "(\<forall>c\<in>set s. is_space c) \<longrightarrow> \<not> isValidPingRequest (Some s)"
    by (simp add: isValidPingRequest_trim trim_all_space)
  have c: "\<not> isValidPingRequest (Some [])"
    by (simp add: isValidPingRequest_def)
  have d: "\<not> isValidPingRequest None"
    by (simp add: isValidPingRequest_def)
  from a b c d show ?thesis by blast
qed

theorem isValidPingRequest_iff_trimmed_ping_witness:
  "isValidPingRequest (Some [CHR '' '', CHR 0x09, CHR ''P'', CHR ''i'', CHR ''N'', CHR ''g'', CHR 0x0D, CHR 0x0A])
   \<and> equals_ignoring_case (trim [CHR '' '', CHR 0x09, CHR ''P'', CHR ''i'', CHR ''N'', CHR ''g'', CHR 0x0D, CHR 0x0A]) ''ping''
   \<and> \<not> isValidPingRequest (Some [CHR '' '', CHR 0x09, CHR 0x0A])
   \<and> \<not> isValidPingRequest (Some ''PONG'')
   \<and> \<not> equals_ignoring_case (trim ''PONG'') ''ping''"
proof -
  have e: "equals_ignoring_case (trim [CHR '' '', CHR 0x09, CHR ''P'', CHR ''i'', CHR ''N'', CHR ''g'', CHR 0x0D, CHR 0x0A]) ''ping''"
    by (simp add: equals_ignoring_case_def trim_def is_space_def tolower_c_def)
  have n: "\<not> equals_ignoring_case (trim ''PONG'') ''ping''"
    by (simp add: equals_ignoring_case_def trim_def is_space_def tolower_c_def)
  have w: "\<forall>c\<in>set [CHR '' '', CHR 0x09, CHR 0x0A]. is_space c"
    by (simp add: is_space_def)
  show ?thesis
    using e n w
      isValidPingRequest_iff_trimmed_ping
        [of "[CHR '' '', CHR 0x09, CHR ''P'', CHR ''i'', CHR ''N'', CHR ''g'', CHR 0x0D, CHR 0x0A]"]
      isValidPingRequest_iff_trimmed_ping [of "[CHR '' '', CHR 0x09, CHR 0x0A]"]
      isValidPingRequest_iff_trimmed_ping [of "''PONG''"]
    by blast
qed

subsection \<open>The record codec\<close>

lemma wrap32_id: "is_int32 x \<Longrightarrow> wrap32 x = x"
  by (simp add: wrap32_def is_int32_def)

lemma is_int32_wrap32: "is_int32 (wrap32 x)"
proof -
  have "0 \<le> (x + 2147483648) mod 4294967296" "(x + 2147483648) mod 4294967296 < 4294967296"
    by simp_all
  then show ?thesis unfolding wrap32_def is_int32_def by linarith
qed

lemma wrap32_mod: "wrap32 (x mod 4294967296) = wrap32 x"
  by (simp add: wrap32_def mod_add_left_eq)

lemma four_bytes_sum:
  fixes u :: int
  assumes "0 \<le> u" "u < 4294967296"
  shows "u mod 256 + 256 * (u div 256 mod 256) + 65536 * (u div 65536 mod 256)
          + 16777216 * (u div 16777216 mod 256) = u"
proof -
  define a where "a = u div 256"
  define b where "b = a div 256"
  define c where "c = b div 256"
  have a: "u = u mod 256 + 256 * a" by (simp add: a_def)
  have b: "a = a mod 256 + 256 * b" by (simp add: b_def)
  have c: "b = b mod 256 + 256 * c" by (simp add: c_def)
  have b': "u div 65536 = b" unfolding b_def a_def by (simp add: div_mult2_eq[symmetric])
  have c': "u div 16777216 = c" unfolding c_def b_def a_def by (simp add: div_mult2_eq[symmetric])
  have "0 \<le> c" "c < 256" using assms unfolding c'[symmetric] by simp_all
  then have cm: "c mod 256 = c" by simp
  show ?thesis unfolding b' c' a_def[symmetric] cm using a b c by linarith
qed

lemma of_le32_le32: "of_le32 (le32 x) = wrap32 x"
proof -
  define u where "u = x mod 4294967296"
  have u: "0 \<le> u" "u < 4294967296" by (simp_all add: u_def)
  show ?thesis
    unfolding of_le32_def le32_def Let_def u_def[symmetric]
    by (simp add: four_bytes_sum[OF u]) (simp add: u_def wrap32_mod)
qed

lemma length_le32: "length (le32 x) = 4"
  by (simp add: le32_def Let_def)

lemma length_encode: "length (data m) = 256 \<Longrightarrow> length (encode m) = 264"
  by (simp add: encode_def length_le32)

lemma decode_encode:
  assumes "wf_Message m"
  shows "decode (encode m) = m"
proof -
  have "status (decode (encode m)) = status m"
    using assms by (simp add: decode_def encode_def length_le32 of_le32_le32 wrap32_id wf_Message_def)
  moreover have "client_id (decode (encode m)) = client_id m"
    using assms by (simp add: decode_def encode_def length_le32 of_le32_le32 wrap32_id wf_Message_def)
  moreover have "data (decode (encode m)) = data m"
    using assms by (simp add: decode_def encode_def length_le32 wf_Message_def)
  ultimately show ?thesis by (simp add: decode_def)
qed

lemma of_le32_zeros: "of_le32 (replicate 4 (CHR 0x00)) = 0"
proof -
  have "replicate 4 (CHR 0x00) = [CHR 0x00, CHR 0x00, CHR 0x00, CHR 0x00]"
    by (simp add: numeral_eq_Suc)
  then show ?thesis by (simp add: of_le32_def wrap32_def)
qed

lemma decode_zeros: "decode (replicate 264 (CHR 0x00)) = zero_Message"
proof -
  have t: "take 4 (replicate 264 (CHR 0x00)) = replicate 4 (CHR 0x00)"
          "take 4 (drop 4 (replicate 264 (CHR 0x00))) = replicate 4 (CHR 0x00)"
          "take 256 (drop 8 (replicate 264 (CHR 0x00))) = replicate 256 (CHR 0x00)"
    by simp_all
  show ?thesis unfolding decode_def t of_le32_zeros zero_Message_def ..
qed

lemma decode_append: "length a = 264 \<Longrightarrow> decode (a @ b) = decode a"
  by (simp add: decode_def)

lemma wf_zero_Message: "wf_Message zero_Message"
  by (simp add: wf_Message_def zero_Message_def is_int32_def)

lemma takeWhile_replicate_same: "0 < n \<Longrightarrow> takeWhile (\<lambda>c. c \<noteq> x) (replicate n x) = []"
  by (cases n) simp_all

lemma c_str_zero_data: "c_str (data zero_Message) = []"
  by (simp add: c_str_def zero_Message_def takeWhile_replicate_same)

text \<open>The outcomes of \<open>readMessage\<close>, one lemma each.\<close>

lemma readMessage_seek_fails:
  "fd_seek_fails h \<Longrightarrow> wf_Message msg \<Longrightarrow> readMessage h msg = (False, msg)"
  by (simp add: readMessage_def read_record_def decode_encode)

lemma readMessage_read_fails:
  "fd_read_fails h \<Longrightarrow> wf_Message msg \<Longrightarrow> readMessage h msg = (False, msg)"
  by (simp add: readMessage_def read_record_def decode_encode)

lemma readMessage_full:
  assumes "\<not> fd_seek_fails h" "\<not> fd_read_fails h" "bytes_obtained h = sizeof_Message"
  shows "readMessage h msg = (True, decode (take sizeof_Message (fd_bytes h)))"
proof -
  have l: "length (take 264 (fd_bytes h)) = 264"
    using assms(3) by (simp add: bytes_obtained_def sizeof_Message_def)
  then have r: "read_record 264 h (encode msg)
                  = (True, take 264 (fd_bytes h) @ drop 264 (encode msg))"
    using assms(1,2) unfolding read_record_def Let_def by simp
  show ?thesis
    unfolding readMessage_def sizeof_Message_def r using l by (simp add: decode_append)
qed

lemma readMessage_empty:
  assumes "\<not> fd_seek_fails h" "\<not> fd_read_fails h" "bytes_obtained h = 0"
  shows "readMessage h msg = (True, zero_Message)"
proof -
  have e: "fd_bytes h = []"
    using assms(3) by (simp add: bytes_obtained_def sizeof_Message_def min_def split: if_splits)
  have r: "read_record 264 h (encode msg) = (True, replicate 264 (CHR 0x00))"
    using assms(1,2) unfolding read_record_def Let_def e by simp
  show ?thesis unfolding readMessage_def sizeof_Message_def r by (simp add: decode_zeros)
qed

lemma readMessage_partial:
  assumes "\<not> fd_seek_fails h" "\<not> fd_read_fails h"
    "bytes_obtained h \<noteq> 0" "bytes_obtained h \<noteq> sizeof_Message"
  shows "readMessage h msg
           = (False, decode (fd_bytes h @ drop (length (fd_bytes h)) (encode msg)))"
proof -
  have l: "length (fd_bytes h) < 264" "fd_bytes h \<noteq> []"
    using assms(3,4) by (auto simp: bytes_obtained_def sizeof_Message_def min_def split: if_splits)
  then have t: "take 264 (fd_bytes h) = fd_bytes h" by simp
  have r: "read_record 264 h (encode msg)
             = (False, fd_bytes h @ drop (length (fd_bytes h)) (encode msg))"
    using assms(1,2) l unfolding read_record_def Let_def t by simp
  show ?thesis unfolding readMessage_def sizeof_Message_def r by simp
qed


lemma writeMessage_healthy:
  assumes "healthy h" "wf_Message m"
  shows "writeMessage h m
           = (True, h\<lparr> fd_bytes := encode m @ drop 264 (fd_bytes h) \<rparr>)"
proof -
  have l: "length (encode m) = 264" using assms(2) by (simp add: length_encode wf_Message_def)
  obtain k where k: "fd_write_room h = Some k" "264 \<le> k"
    using assms(1) by (auto simp: healthy_def sizeof_Message_def split: option.splits)
  then have t: "take k (encode m) = encode m" using l by simp
  show ?thesis
    using assms(1) unfolding writeMessage_def write_record_def Let_def k option.case t
    by (simp add: healthy_def l)
qed

lemma read_after_write:
  assumes "healthy h" "wf_Message m"
  shows "readMessage (snd (writeMessage h m)) buf = (True, m)"
proof -
  let ?h' = "h\<lparr> fd_bytes := encode m @ drop 264 (fd_bytes h) \<rparr>"
  have l: "length (encode m) = 264" using assms(2) by (simp add: length_encode wf_Message_def)
  have t: "take sizeof_Message (fd_bytes ?h') = encode m"
    unfolding sizeof_Message_def using l by simp
  have "bytes_obtained ?h' = sizeof_Message"
    unfolding bytes_obtained_def t using l by (simp add: sizeof_Message_def)
  from readMessage_full[OF _ _ this, of buf] show ?thesis
    using assms(1) unfolding writeMessage_healthy[OF assms] t
    by (simp add: healthy_def decode_encode[OF assms(2)])
qed

text \<open>
  \<^bold>\<open>C2\<close>, as the claim states it, asks that a failed read hands no partial data to the
  caller.  The source reads straight into the caller's record, so after a short read
  the record holds the bytes obtained.  At a file of four bytes \<open>02 00 00 00\<close> and a
  zeroed record, \<open>readMessage\<close> answers false and the caller's record has status 2.
\<close>

theorem readMessage_short_read_overwrites:
  "readMessage \<lparr> fd_bytes = [CHR 0x02, CHR 0x00, CHR 0x00, CHR 0x00],
                 fd_seek_fails = False, fd_read_fails = False,
                 fd_write_room = Some 264 \<rparr> zero_Message
     = (False, zero_Message \<lparr> status := 2 \<rparr>)"
proof -
  let ?h = "\<lparr> fd_bytes = [CHR 0x02, CHR 0x00, CHR 0x00, CHR 0x00],
              fd_seek_fails = False, fd_read_fails = False, fd_write_room = Some 264 \<rparr>"
  have b: "bytes_obtained ?h = 4" by (simp add: bytes_obtained_def sizeof_Message_def)
  have r: "readMessage ?h zero_Message
             = (False, decode (fd_bytes ?h @ drop (length (fd_bytes ?h)) (encode zero_Message)))"
    by (rule readMessage_partial) (simp_all add: b sizeof_Message_def)
  have n: "length (fd_bytes ?h) = 4" by simp
  have e: "drop 4 (encode zero_Message) = le32 0 @ replicate 256 (CHR 0x00)"
    by (simp add: encode_def zero_Message_def length_le32)
  have s: "of_le32 [CHR 0x02, CHR 0x00, CHR 0x00, CHR 0x00] = 2"
    by (simp add: of_le32_def wrap32_def)
  have c: "of_le32 (le32 0) = 0" by (simp add: of_le32_le32 wrap32_def)
  have d: "decode ([CHR 0x02, CHR 0x00, CHR 0x00, CHR 0x00] @ le32 0 @ replicate 256 (CHR 0x00))
          = zero_Message \<lparr> status := 2 \<rparr>"
    by (simp add: decode_def zero_Message_def s c length_le32)
  have "fd_bytes ?h @ drop (length (fd_bytes ?h)) (encode zero_Message)
          = [CHR 0x02, CHR 0x00, CHR 0x00, CHR 0x00] @ le32 0 @ replicate 256 (CHR 0x00)"
    unfolding n e by simp
  then show ?thesis unfolding r d[symmetric] by simp
qed

text \<open>
  \<^bold>\<open>C2\<close> (amended).  For every state of the file and every record \<open>msg\<close> of the caller,
  \<open>readMessage\<close> has these outcomes and no other.
  \<^item> The seek or the read fails: the answer is false and the caller's record is
    untouched.
  \<^item> The read obtains the full 264 bytes: the answer is true and the caller's record
    is the record those bytes hold.
  \<^item> The read obtains no byte: the answer is true and the caller's record is the zero
    record (status FREE, \<open>client_id\<close> 0, empty payload).
  \<^item> The read obtains any other number \<open>r\<close> of bytes: the answer is false, and the
    first \<open>r\<close> bytes of the caller's record are overwritten with the bytes obtained
    (the rest is kept), so the record is not to be used.
\<close>

theorem readMessage_outcomes:
  assumes "wf_Message msg"
  shows "(if fd_seek_fails h \<or> fd_read_fails h then
            readMessage h msg = (False, msg)
          else if bytes_obtained h = sizeof_Message then
            readMessage h msg = (True, decode (take sizeof_Message (fd_bytes h)))
          else if bytes_obtained h = 0 then
            readMessage h msg = (True, zero_Message)
          else
            readMessage h msg
              = (False, decode (fd_bytes h @ drop (bytes_obtained h) (encode msg))))
         \<and> status zero_Message = 0 \<and> client_id zero_Message = 0
         \<and> c_str (data zero_Message) = []"
proof -
  have z: "status zero_Message = 0 \<and> client_id zero_Message = 0"
    by (simp add: zero_Message_def)
  have p: "bytes_obtained h \<noteq> sizeof_Message \<Longrightarrow> bytes_obtained h = length (fd_bytes h)"
    by (auto simp: bytes_obtained_def sizeof_Message_def min_def split: if_splits)
  show ?thesis
    using assms z c_str_zero_data p
      readMessage_seek_fails[of h msg] readMessage_read_fails[of h msg]
      readMessage_full[of h msg] readMessage_empty[of h msg] readMessage_partial[of h msg]
    by (cases "fd_seek_fails h"; cases "fd_read_fails h"; simp)
qed

theorem readMessage_outcomes_witness:
  "readMessage (file_of zero_Message) zero_Message
     = (True, decode (take sizeof_Message (fd_bytes (file_of zero_Message))))
   \<and> readMessage ((file_of zero_Message) \<lparr> fd_bytes := [] \<rparr>) zero_Message = (True, zero_Message)
   \<and> readMessage ((file_of zero_Message) \<lparr> fd_seek_fails := True \<rparr>) zero_Message
       = (False, zero_Message)
   \<and> fst (readMessage ((file_of zero_Message) \<lparr> fd_bytes := [CHR 0x02] \<rparr>) zero_Message) = False"
proof -
  let ?f = "file_of zero_Message"
  have l: "length (encode zero_Message) = 264"
    by (simp add: length_encode zero_Message_def)
  have f: "\<not> fd_seek_fails ?f" "\<not> fd_read_fails ?f" by (simp_all add: file_of_def)
  have b1: "bytes_obtained ?f = sizeof_Message"
    by (simp add: bytes_obtained_def file_of_def sizeof_Message_def l)
  have b2: "bytes_obtained (?f \<lparr> fd_bytes := [] \<rparr>) = 0"
    by (simp add: bytes_obtained_def)
  have b3: "bytes_obtained (?f \<lparr> fd_bytes := [CHR 0x02] \<rparr>) = 1"
    by (simp add: bytes_obtained_def sizeof_Message_def)
  have c1: "readMessage ?f zero_Message = (True, decode (take sizeof_Message (fd_bytes ?f)))"
    using readMessage_outcomes[OF wf_zero_Message, of ?f] f b1 by simp
  have c2: "readMessage (?f \<lparr> fd_bytes := [] \<rparr>) zero_Message = (True, zero_Message)"
    using readMessage_outcomes[OF wf_zero_Message, of "?f \<lparr> fd_bytes := [] \<rparr>"] f b2
    by (simp add: sizeof_Message_def)
  have c3: "readMessage (?f \<lparr> fd_seek_fails := True \<rparr>) zero_Message = (False, zero_Message)"
    using readMessage_outcomes[OF wf_zero_Message, of "?f \<lparr> fd_seek_fails := True \<rparr>"] by simp
  have c4: "fst (readMessage (?f \<lparr> fd_bytes := [CHR 0x02] \<rparr>) zero_Message) = False"
    using readMessage_outcomes[OF wf_zero_Message, of "?f \<lparr> fd_bytes := [CHR 0x02] \<rparr>"] f b3
    by (simp add: sizeof_Message_def)
  from c1 c2 c3 c4 show ?thesis by blast
qed

subsection \<open>The liveness check of discovery\<close>

lemma checkServerAvailability_bytes:
  "checkServerAvailability fs f \<longleftrightarrow>
     (\<exists>h. fs f = Some h \<and> \<not> fd_seek_fails h \<and> \<not> fd_read_fails h
        \<and> (fd_bytes h = []
            \<or> 264 \<le> length (fd_bytes h)
              \<and> (of_le32 (take 4 (fd_bytes h)) = 0 \<or> of_le32 (take 4 (fd_bytes h)) = 2)))"
proof (cases "fs f")
  case None
  then show ?thesis by (simp add: checkServerAvailability_def)
next
  case (Some h)
  have z: "status zero_Message = 0" by (simp add: zero_Message_def)
  have b: "bytes_obtained h = min (length (fd_bytes h)) 264"
    by (simp add: bytes_obtained_def sizeof_Message_def)
  have s: "status (decode (take sizeof_Message (fd_bytes h))) = of_le32 (take 4 (fd_bytes h))"
    by (simp add: decode_def sizeof_Message_def)
  consider (err) "fd_seek_fails h \<or> fd_read_fails h"
    | (full) "\<not> fd_seek_fails h" "\<not> fd_read_fails h" "264 \<le> length (fd_bytes h)"
    | (empty) "\<not> fd_seek_fails h" "\<not> fd_read_fails h" "fd_bytes h = []"
    | (part) "\<not> fd_seek_fails h" "\<not> fd_read_fails h" "fd_bytes h \<noteq> []" "length (fd_bytes h) < 264"
    by (cases "fd_bytes h = []"; cases "264 \<le> length (fd_bytes h)"; auto)
  then show ?thesis
  proof cases
    case err
    then have "readMessage h zero_Message = (False, zero_Message)"
      using readMessage_seek_fails readMessage_read_fails wf_zero_Message by blast
    with err Some show ?thesis by (auto simp: checkServerAvailability_def)
  next
    case full
    then have "readMessage h zero_Message = (True, decode (take sizeof_Message (fd_bytes h)))"
      by (intro readMessage_full) (simp_all add: b sizeof_Message_def)
    with full Some s show ?thesis by (auto simp: checkServerAvailability_def)
  next
    case empty
    then have "readMessage h zero_Message = (True, zero_Message)"
      by (intro readMessage_empty) (simp_all add: b)
    with empty Some z show ?thesis by (auto simp: checkServerAvailability_def)
  next
    case part
    then have "fst (readMessage h zero_Message) = False"
      using readMessage_partial[of h zero_Message] by (simp add: b sizeof_Message_def)
    with part Some show ?thesis by (auto simp: checkServerAvailability_def split: prod.splits)
  qed
qed

text \<open>
  \<^bold>\<open>C9\<close>, as the claim states it, has a candidate available only if its record can be
  fully read.  \<^verbatim>\<open>readMessage\<close> also answers true when the read obtains no byte, with
  the zeroed record, whose status is 0: a mailbox file that opens and is empty is
  reported available, although the read obtained none of the 264 bytes of a record.
\<close>

theorem empty_file_is_reported_available:
  "checkServerAvailability
     (\<lambda>n. Some \<lparr> fd_bytes = [], fd_seek_fails = False, fd_read_fails = False,
                  fd_write_room = Some 264 \<rparr>)
     ''ipc_server_1.bin''
   \<and> bytes_obtained \<lparr> fd_bytes = [], fd_seek_fails = False, fd_read_fails = False,
                       fd_write_room = Some 264 \<rparr> = 0"
  by code_simp

text \<open>
  \<^bold>\<open>C9\<close> (amended).  The liveness check of discovery reports a candidate available
  exactly when its file opens, neither the seek nor the read on it fails, and the read
  obtains either a full record of 264 bytes whose status is FREE (0) or RESPONSE (2),
  or no byte at all (an empty file, which \<^verbatim>\<open>readMessage\<close> takes as the zero record).
  A full record whose status is REQUEST (1) is never reported available, and neither
  is a file that holds only part of a record.
\<close>

theorem available_iff_free_record_or_empty_file:
  "(checkServerAvailability fs f \<longleftrightarrow>
      (\<exists>h. fs f = Some h \<and> \<not> fd_seek_fails h \<and> \<not> fd_read_fails h
         \<and> (bytes_obtained h = sizeof_Message
              \<and> (status (decode (take sizeof_Message (fd_bytes h))) = 0
                 \<or> status (decode (take sizeof_Message (fd_bytes h))) = 2)
            \<or> bytes_obtained h = 0)))
   \<and> (\<forall>h. fs f = Some h \<and> bytes_obtained h = sizeof_Message
            \<and> status (decode (take sizeof_Message (fd_bytes h))) = 1
         \<longrightarrow> \<not> checkServerAvailability fs f)
   \<and> (\<forall>h. fs f = Some h \<and> 0 < bytes_obtained h \<and> bytes_obtained h < sizeof_Message
         \<longrightarrow> \<not> checkServerAvailability fs f)"
proof -
  have s: "status (decode (take sizeof_Message (fd_bytes h))) = of_le32 (take 4 (fd_bytes h))"
    for h by (simp add: decode_def sizeof_Message_def)
  have b: "bytes_obtained h = sizeof_Message \<longleftrightarrow> 264 \<le> length (fd_bytes h)"
    "bytes_obtained h = 0 \<longleftrightarrow> fd_bytes h = []" for h
    by (auto simp: bytes_obtained_def sizeof_Message_def min_def)
  have p: "0 < bytes_obtained h \<and> bytes_obtained h < sizeof_Message
             \<longleftrightarrow> fd_bytes h \<noteq> [] \<and> length (fd_bytes h) < 264" for h
    by (auto simp: bytes_obtained_def sizeof_Message_def min_def)
  have one: "checkServerAvailability fs f \<longleftrightarrow>
      (\<exists>h. fs f = Some h \<and> \<not> fd_seek_fails h \<and> \<not> fd_read_fails h
         \<and> (bytes_obtained h = sizeof_Message
              \<and> (status (decode (take sizeof_Message (fd_bytes h))) = 0
                 \<or> status (decode (take sizeof_Message (fd_bytes h))) = 2)
            \<or> bytes_obtained h = 0))"
    unfolding checkServerAvailability_bytes s b by blast
  have two: "\<forall>h. fs f = Some h \<and> bytes_obtained h = sizeof_Message
            \<and> status (decode (take sizeof_Message (fd_bytes h))) = 1
         \<longrightarrow> \<not> checkServerAvailability fs f"
    unfolding checkServerAvailability_bytes s b by auto
  have three: "\<forall>h. fs f = Some h \<and> 0 < bytes_obtained h \<and> bytes_obtained h < sizeof_Message
         \<longrightarrow> \<not> checkServerAvailability fs f"
    unfolding checkServerAvailability_bytes p by auto
  from one two three show ?thesis by (intro conjI)
qed

theorem available_iff_free_record_or_empty_file_witness:
  "checkServerAvailability (\<lambda>n. Some (file_of zero_Message)) ''ipc_server_1.bin''
   \<and> checkServerAvailability (\<lambda>n. Some (file_of (zero_Message \<lparr> status := 2 \<rparr>))) ''ipc_server_1.bin''
   \<and> checkServerAvailability (\<lambda>n. Some ((file_of zero_Message) \<lparr> fd_bytes := [] \<rparr>)) ''ipc_server_1.bin''
   \<and> \<not> checkServerAvailability (\<lambda>n. Some (file_of (zero_Message \<lparr> status := 1 \<rparr>))) ''ipc_server_1.bin''
   \<and> \<not> checkServerAvailability
         (\<lambda>n. Some ((file_of zero_Message) \<lparr> fd_bytes := [CHR 0x00, CHR 0x00, CHR 0x00, CHR 0x00] \<rparr>))
         ''ipc_server_1.bin''
   \<and> \<not> checkServerAvailability (\<lambda>n. Some ((file_of zero_Message) \<lparr> fd_read_fails := True \<rparr>))
         ''ipc_server_1.bin''
   \<and> \<not> checkServerAvailability (\<lambda>n. None) ''ipc_server_1.bin''"
proof -
  let ?n = "''ipc_server_1.bin''"
  let ?z = "file_of zero_Message"
  have l: "length (encode m) = 264" if "wf_Message m" for m
    using that by (simp add: length_encode wf_Message_def)
  have w: "wf_Message (zero_Message \<lparr> status := s \<rparr>)" if "is_int32 s" for s
    using that by (simp add: wf_Message_def zero_Message_def is_int32_def)
  have i: "is_int32 1" "is_int32 2" by (simp_all add: is_int32_def)
  have full: "bytes_obtained (file_of m) = sizeof_Message
              \<and> status (decode (take sizeof_Message (fd_bytes (file_of m)))) = status m
              \<and> \<not> fd_seek_fails (file_of m) \<and> \<not> fd_read_fails (file_of m)"
    if "wf_Message m" for m
    using decode_encode[OF that] l[OF that]
    by (simp add: bytes_obtained_def file_of_def sizeof_Message_def)
  have z: "status zero_Message = 0" by (simp add: zero_Message_def)
  have f0: "\<not> fd_seek_fails ?z" "\<not> fd_read_fails ?z" by (simp_all add: file_of_def)
  have c1: "checkServerAvailability (\<lambda>n. Some ?z) ?n"
    using available_iff_free_record_or_empty_file[of "\<lambda>n. Some ?z" ?n] full[OF wf_zero_Message] z
    by (simp add: sizeof_Message_def)
  have c2: "checkServerAvailability (\<lambda>n. Some (file_of (zero_Message \<lparr> status := 2 \<rparr>))) ?n"
    using available_iff_free_record_or_empty_file
            [of "\<lambda>n. Some (file_of (zero_Message \<lparr> status := 2 \<rparr>))" ?n]
          full[OF w[OF i(2)]]
    by (simp add: sizeof_Message_def)
  have c3: "checkServerAvailability (\<lambda>n. Some (?z \<lparr> fd_bytes := [] \<rparr>)) ?n"
    using available_iff_free_record_or_empty_file[of "\<lambda>n. Some (?z \<lparr> fd_bytes := [] \<rparr>)" ?n] f0
    by (simp add: bytes_obtained_def)
  have c4: "\<not> checkServerAvailability (\<lambda>n. Some (file_of (zero_Message \<lparr> status := 1 \<rparr>))) ?n"
    using available_iff_free_record_or_empty_file
            [of "\<lambda>n. Some (file_of (zero_Message \<lparr> status := 1 \<rparr>))" ?n]
          full[OF w[OF i(1)]]
    by (simp add: sizeof_Message_def)
  have c5: "\<not> checkServerAvailability
         (\<lambda>n. Some (?z \<lparr> fd_bytes := [CHR 0x00, CHR 0x00, CHR 0x00, CHR 0x00] \<rparr>)) ?n"
    using available_iff_free_record_or_empty_file
            [of "\<lambda>n. Some (?z \<lparr> fd_bytes := [CHR 0x00, CHR 0x00, CHR 0x00, CHR 0x00] \<rparr>)" ?n]
    by (simp add: bytes_obtained_def sizeof_Message_def)
  have c6: "\<not> checkServerAvailability (\<lambda>n. Some (?z \<lparr> fd_read_fails := True \<rparr>)) ?n"
    using available_iff_free_record_or_empty_file[of "\<lambda>n. Some (?z \<lparr> fd_read_fails := True \<rparr>)" ?n]
    by simp
  have c7: "\<not> checkServerAvailability (\<lambda>n. None) ?n"
    using available_iff_free_record_or_empty_file[of "\<lambda>n. None" ?n] by simp
  from c1 c2 c3 c4 c5 c6 c7 show ?thesis by (intro conjI)
qed

subsection \<open>The servers\<close>

lemma length_strncpy_data: "length (strncpy_data src) = 256"
  by (simp add: strncpy_data_def)

lemma c_str_strncpy_data:
  assumes "CHR 0x00 \<notin> set src" "length src \<le> 255"
  shows "c_str (strncpy_data src) = src"
proof -
  have t: "take 255 src = src" using assms(2) by simp
  have n: "0 < 256 - length src" using assms(2) by simp
  have "takeWhile (\<lambda>c. c \<noteq> CHR 0x00) (src @ replicate (256 - length src) (CHR 0x00))
          = src @ takeWhile (\<lambda>c. c \<noteq> CHR 0x00) (replicate (256 - length src) (CHR 0x00))"
    by (rule takeWhile_append2) (use assms(1) in auto)
  then show ?thesis
    unfolding c_str_def strncpy_data_def t by (simp add: takeWhile_replicate_same[OF n])
qed

lemma c_str_invalid_ping_text: "c_str (strncpy_data invalid_ping_text) = invalid_ping_text"
  by (rule c_str_strncpy_data) (simp_all add: invalid_ping_text_def)

lemma c_str_ping: "c_str (strncpy_data ''ping'') = ''ping''"
  by (rule c_str_strncpy_data) simp_all

lemma c_str_PONG: "c_str (strncpy_data ''PONG'') = ''PONG''"
  by (rule c_str_strncpy_data) simp_all

lemma valid_ping: "isValidPingRequest (Some ''ping'')"
  by (simp add: isValidPingRequest_trim trim_def is_space_def tolower_c_def)

lemma invalid_PONG: "\<not> isValidPingRequest (Some ''PONG'')"
  by (simp add: isValidPingRequest_trim trim_def is_space_def tolower_c_def)

lemma server_invalid_branch:
  assumes "\<not> isValidPingRequest (Some (c_str (data msg)))"
  shows "server_handle_request s h msg
           = (s, msg \<lparr> status := 2, data := strncpy_data invalid_ping_text \<rparr>,
              writeMessage h (msg \<lparr> status := 2, data := strncpy_data invalid_ping_text \<rparr>))"
  using assms by (simp add: server_handle_request_def Let_def)

lemma simple_server_invalid_branch:
  assumes "\<not> isValidRequest (Some (c_str (s_data msg)))"
  shows "simple_server_handle_request s h msg
           = (s \<lparr> processedRequests := wrap32 (processedRequests s + 1),
                   errorCount := wrap32 (errorCount s + 1) \<rparr>,
              msg \<lparr> s_status := 2, s_data := strncpy_data ''ERROR: Invalid request format'' \<rparr>,
              writeMessage_simple h
                (msg \<lparr> s_status := 2, s_data := strncpy_data ''ERROR: Invalid request format'' \<rparr>))"
  using assms by (simp add: simple_server_handle_request_def Let_def)

text \<open>
  \<^bold>\<open>C1\<close>, as the claim states it, asks both servers to leave the processed-request
  counter alone on an invalid payload.  The single-mailbox server counts every
  request before it validates: on the payload \<open>hi\<close> (shorter than four characters,
  hence invalid) \<open>processedRequests\<close> goes from 0 to 1, and \<open>errorCount\<close> as well.
\<close>

theorem simple_server_counts_invalid_request:
  "\<not> isValidRequest (Some (c_str (strncpy_data ''hi'')))
   \<and> processedRequests (fst (simple_server_handle_request
         \<lparr> processedRequests = 0, errorCount = 0 \<rparr>
         \<lparr> fd_bytes = [], fd_seek_fails = False, fd_read_fails = False, fd_write_room = Some 260 \<rparr>
         \<lparr> s_status = 1, s_data = strncpy_data ''hi'' \<rparr>)) = 1
   \<and> errorCount (fst (simple_server_handle_request
         \<lparr> processedRequests = 0, errorCount = 0 \<rparr>
         \<lparr> fd_bytes = [], fd_seek_fails = False, fd_read_fails = False, fd_write_room = Some 260 \<rparr>
         \<lparr> s_status = 1, s_data = strncpy_data ''hi'' \<rparr>)) = 1"
proof -
  have c: "c_str (strncpy_data ''hi'') = ''hi''"
    by (rule c_str_strncpy_data) simp_all
  have i: "\<not> isValidRequest (Some (c_str (strncpy_data ''hi'')))"
    unfolding c by (simp add: isValidRequest_def)
  have i': "\<not> isValidRequest (Some (c_str (s_data \<lparr> s_status = 1, s_data = strncpy_data ''hi'' \<rparr>)))"
    using i by simp
  show ?thesis
    unfolding simple_server_invalid_branch[OF i'] using i by (simp add: wrap32_def)
qed

text \<open>
  \<^bold>\<open>C1\<close> (amended).  On a request whose payload fails validation each server hands to
  \<open>writeMessage\<close>, without any dispatch, the record it read with the status set
  to RESPONSE (2) and the payload set to its fixed error text.
  \<^item> The multi-instance server leaves \<open>client_id\<close> as it was in the request and
    changes none of its globals (next id, known clients, client counter).  When the
    write succeeds the file holds exactly that record.
  \<^item> The single-mailbox server, whose record has no \<open>client_id\<close>, has by then
    added one to \<open>processedRequests\<close> and adds one to \<open>errorCount\<close>.
\<close>

theorem invalid_payload_response:
  "(\<not> isValidPingRequest (Some (c_str (data msg))) \<longrightarrow>
      (case server_handle_request s h msg of
         (s1, out, ok, h1) \<Rightarrow>
           s1 = s
           \<and> out = msg \<lparr> status := 2, data := strncpy_data invalid_ping_text \<rparr>
           \<and> status out = 2 \<and> client_id out = client_id msg
           \<and> c_str (data out) = invalid_ping_text
           \<and> (ok, h1) = writeMessage h out
           \<and> (healthy h \<and> wf_Message msg \<longrightarrow> ok \<and> readMessage h1 buf = (True, out))))
   \<and> (\<not> isValidRequest (Some (c_str (s_data sm))) \<longrightarrow>
      (case simple_server_handle_request t h sm of
         (t1, out, ok, h1) \<Rightarrow>
           processedRequests t1 = wrap32 (processedRequests t + 1)
           \<and> errorCount t1 = wrap32 (errorCount t + 1)
           \<and> out = sm \<lparr> s_status := 2, s_data := strncpy_data ''ERROR: Invalid request format'' \<rparr>
           \<and> (ok, h1) = writeMessage_simple h out))"
proof -
  let ?out = "msg \<lparr> status := 2, data := strncpy_data invalid_ping_text \<rparr>"
  have w: "wf_Message ?out" if "wf_Message msg"
    using that by (simp add: wf_Message_def length_strncpy_data is_int32_def)
  have r: "fst (writeMessage h ?out) \<and> readMessage (snd (writeMessage h ?out)) buf = (True, ?out)"
    if "healthy h" "wf_Message msg"
    using read_after_write[OF that(1) w[OF that(2)]] writeMessage_healthy[OF that(1) w[OF that(2)]]
    by simp
  have a: "\<not> isValidPingRequest (Some (c_str (data msg))) \<longrightarrow>
      (case server_handle_request s h msg of
         (s1, out, ok, h1) \<Rightarrow>
           s1 = s
           \<and> out = msg \<lparr> status := 2, data := strncpy_data invalid_ping_text \<rparr>
           \<and> status out = 2 \<and> client_id out = client_id msg
           \<and> c_str (data out) = invalid_ping_text
           \<and> (ok, h1) = writeMessage h out
           \<and> (healthy h \<and> wf_Message msg \<longrightarrow> ok \<and> readMessage h1 buf = (True, out)))"
  proof
    assume i: "\<not> isValidPingRequest (Some (c_str (data msg)))"
    obtain ok h1 where wr: "writeMessage h ?out = (ok, h1)" by (cases "writeMessage h ?out")
    show "case server_handle_request s h msg of
         (s1, out, ok, h1) \<Rightarrow>
           s1 = s
           \<and> out = msg \<lparr> status := 2, data := strncpy_data invalid_ping_text \<rparr>
           \<and> status out = 2 \<and> client_id out = client_id msg
           \<and> c_str (data out) = invalid_ping_text
           \<and> (ok, h1) = writeMessage h out
           \<and> (healthy h \<and> wf_Message msg \<longrightarrow> ok \<and> readMessage h1 buf = (True, out))"
      unfolding server_invalid_branch[OF i] wr using r wr
      by (simp add: c_str_invalid_ping_text)
  qed
  have b: "\<not> isValidRequest (Some (c_str (s_data sm))) \<longrightarrow>
      (case simple_server_handle_request t h sm of
         (t1, out, ok, h1) \<Rightarrow>
           processedRequests t1 = wrap32 (processedRequests t + 1)
           \<and> errorCount t1 = wrap32 (errorCount t + 1)
           \<and> out = sm \<lparr> s_status := 2, s_data := strncpy_data ''ERROR: Invalid request format'' \<rparr>
           \<and> (ok, h1) = writeMessage_simple h out)"
  proof
    assume i: "\<not> isValidRequest (Some (c_str (s_data sm)))"
    show "case simple_server_handle_request t h sm of
         (t1, out, ok, h1) \<Rightarrow>
           processedRequests t1 = wrap32 (processedRequests t + 1)
           \<and> errorCount t1 = wrap32 (errorCount t + 1)
           \<and> out = sm \<lparr> s_status := 2, s_data := strncpy_data ''ERROR: Invalid request format'' \<rparr>
           \<and> (ok, h1) = writeMessage_simple h out"
      unfolding simple_server_invalid_branch[OF i]
      by (cases "writeMessage_simple h
                (sm \<lparr> s_status := 2, s_data := strncpy_data ''ERROR: Invalid request format'' \<rparr>)")
        simp
  qed
  from a b show ?thesis by blast
qed

theorem invalid_payload_response_witness:
  "fst (server_handle_request (initial_server 1) (file_of zero_Message)
          (zero_Message \<lparr> status := 1, client_id := 7, data := strncpy_data ''PONG'' \<rparr>))
     = initial_server 1
   \<and> status (fst (snd (server_handle_request (initial_server 1) (file_of zero_Message)
          (zero_Message \<lparr> status := 1, client_id := 7, data := strncpy_data ''PONG'' \<rparr>)))) = 2
   \<and> client_id (fst (snd (server_handle_request (initial_server 1) (file_of zero_Message)
          (zero_Message \<lparr> status := 1, client_id := 7, data := strncpy_data ''PONG'' \<rparr>)))) = 7
   \<and> c_str (data (fst (snd (server_handle_request (initial_server 1) (file_of zero_Message)
          (zero_Message \<lparr> status := 1, client_id := 7, data := strncpy_data ''PONG'' \<rparr>)))))
       = invalid_ping_text
   \<and> processedRequests (fst (simple_server_handle_request
          \<lparr> processedRequests = 4, errorCount = 1 \<rparr> (file_of zero_Message)
          \<lparr> s_status = 1, s_data = strncpy_data ''hi'' \<rparr>)) = 5
   \<and> errorCount (fst (simple_server_handle_request
          \<lparr> processedRequests = 4, errorCount = 1 \<rparr> (file_of zero_Message)
          \<lparr> s_status = 1, s_data = strncpy_data ''hi'' \<rparr>)) = 2"
proof -
  let ?req = "zero_Message \<lparr> status := 1, client_id := 7, data := strncpy_data ''PONG'' \<rparr>"
  let ?sm = "\<lparr> s_status = 1, s_data = strncpy_data ''hi'' \<rparr>"
  let ?t = "\<lparr> processedRequests = 4, errorCount = 1 \<rparr>"
  have i: "\<not> isValidPingRequest (Some (c_str (data ?req)))"
    by (simp add: c_str_PONG invalid_PONG)
  have c: "c_str (strncpy_data ''hi'') = ''hi''"
    by (rule c_str_strncpy_data) simp_all
  have j: "\<not> isValidRequest (Some (c_str (s_data ?sm)))"
    by (simp add: c isValidRequest_def)
  obtain s1 out ok h1 where
    e: "server_handle_request (initial_server 1) (file_of zero_Message) ?req = (s1, out, ok, h1)"
    by (metis prod_cases4)
  obtain t1 out' ok' h1' where
    f: "simple_server_handle_request ?t (file_of zero_Message) ?sm = (t1, out', ok', h1')"
    by (metis prod_cases4)
  from invalid_payload_response
         [of ?req "initial_server 1" "file_of zero_Message" zero_Message ?sm ?t] i j
  show ?thesis unfolding e f by (simp add: wrap32_def c_str_invalid_ping_text)
qed

lemma assign_client_zero:
  assumes "client_id msg = 0"
  shows "assign_client s msg
           = (s \<lparr> nextClientId := wrap32 (nextClientId s + 1),
                   connectedClients := insert (nextClientId s) (connectedClients s),
                   clientCounter :=
                     wrap32 (int (card (insert (nextClientId s) (connectedClients s)))) \<rparr>,
              msg \<lparr> client_id := nextClientId s \<rparr>, True)"
  using assms by (simp add: assign_client_def Let_def)

lemma server_handle_new_client:
  assumes "isValidPingRequest (Some (c_str (data msg)))" "client_id msg = 0"
  shows "server_handle_request s h msg
           = (s \<lparr> nextClientId := wrap32 (nextClientId s + 1),
                   connectedClients := insert (nextClientId s) (connectedClients s),
                   clientCounter :=
                     wrap32 (int (card (insert (nextClientId s) (connectedClients s)))) \<rparr>,
              msg \<lparr> client_id := nextClientId s, status := 2,
                    data := strncpy_data (pong_text (serverInstanceNumber s) (nextClientId s)) \<rparr>,
              writeMessage h
                (msg \<lparr> client_id := nextClientId s, status := 2,
                    data := strncpy_data (pong_text (serverInstanceNumber s) (nextClientId s)) \<rparr>))"
  using assms(1) unfolding server_handle_request_def assign_client_zero[OF assms(2)]
  by (simp add: Let_def)

text \<open>A run of requests of new clients, from any state of the globals: the ids handed
  out are the next ids in order, and all of them are registered.\<close>

lemma server_run_new_clients:
  assumes "\<forall>(h, m)\<in>set reqs. isValidPingRequest (Some (c_str (data m))) \<and> client_id m = 0"
    and "1 \<le> nextClientId s"
    and "nextClientId s + int (length reqs) \<le> INT_MAX"
  shows "map client_id (snd (server_run s reqs))
           = map (\<lambda>i. nextClientId s + int i) [0..<length reqs]
         \<and> map status (snd (server_run s reqs)) = replicate (length reqs) 2
         \<and> nextClientId (fst (server_run s reqs)) = nextClientId s + int (length reqs)
         \<and> connectedClients (fst (server_run s reqs))
             = connectedClients s \<union> (\<lambda>i. nextClientId s + int i) ` {0..<length reqs}"
  using assms
proof (induction reqs arbitrary: s)
  case Nil
  then show ?case by simp
next
  case (Cons r reqs)
  obtain h m where r: "r = (h, m)" by (cases r)
  have v: "isValidPingRequest (Some (c_str (data m)))" and z: "client_id m = 0"
    using Cons.prems(1) r by auto
  let ?s1 = "s \<lparr> nextClientId := wrap32 (nextClientId s + 1),
                  connectedClients := insert (nextClientId s) (connectedClients s),
                  clientCounter :=
                    wrap32 (int (card (insert (nextClientId s) (connectedClients s)))) \<rparr>"
  have w: "wrap32 (nextClientId s + 1) = nextClientId s + 1"
    using Cons.prems(2,3) by (intro wrap32_id) (simp add: is_int32_def INT_MAX_def)
  have n1: "nextClientId ?s1 = nextClientId s + 1" using w by simp
  have p1: "\<forall>(h, m)\<in>set reqs. isValidPingRequest (Some (c_str (data m))) \<and> client_id m = 0"
    using Cons.prems(1) by simp
  have p2: "1 \<le> nextClientId ?s1" using Cons.prems(2) n1 by simp
  have p3: "nextClientId ?s1 + int (length reqs) \<le> INT_MAX" using Cons.prems(3) n1 by simp
  note IH = Cons.IH[OF p1 p2 p3]
  obtain s2 outs where run: "server_run ?s1 reqs = (s2, outs)" by (cases "server_run ?s1 reqs")
  have ids: "map client_id outs = map (\<lambda>i. nextClientId s + 1 + int i) [0..<length reqs]"
    and sts: "map status outs = replicate (length reqs) 2"
    and nxt: "nextClientId s2 = nextClientId s + 1 + int (length reqs)"
    and cc: "connectedClients s2 = insert (nextClientId s) (connectedClients s)
                \<union> (\<lambda>i. nextClientId s + 1 + int i) ` {0..<length reqs}"
    using IH unfolding run n1 by simp_all
  have shift: "map (\<lambda>i. nextClientId s + int i) [0..<Suc (length reqs)]
                 = nextClientId s # map (\<lambda>i. nextClientId s + 1 + int i) [0..<length reqs]"
    by (simp add: upt_conv_Cons map_Suc_upt[symmetric] del: upt_Suc)
  have img: "(\<lambda>i. nextClientId s + int i) ` {0..<Suc (length reqs)}
               = insert (nextClientId s) ((\<lambda>i. nextClientId s + 1 + int i) ` {0..<length reqs})"
  proof -
    have "set (map (\<lambda>i. nextClientId s + int i) [0..<Suc (length reqs)])
            = set (nextClientId s # map (\<lambda>i. nextClientId s + 1 + int i) [0..<length reqs])"
      by (simp only: shift)
    then show ?thesis by (simp only: set_map set_upt list.set)
  qed
  show ?case
    unfolding r server_run.simps server_handle_new_client[OF v z] prod.case run
    using ids sts nxt cc shift img by (simp add: Un_commute insert_commute) 
qed

lemma server_handle_old_client:
  assumes "isValidPingRequest (Some (c_str (data msg)))" "client_id msg \<noteq> 0"
  shows "server_handle_request s h msg
           = ((if 0 < client_id msg \<and> client_id msg \<notin> connectedClients s
               then s \<lparr> connectedClients := insert (client_id msg) (connectedClients s),
                         clientCounter :=
                           wrap32 (int (card (insert (client_id msg) (connectedClients s)))) \<rparr>
               else s),
              msg \<lparr> status := 2,
                    data := strncpy_data (pong_text (serverInstanceNumber s) (client_id msg)) \<rparr>,
              writeMessage h
                (msg \<lparr> status := 2,
                    data := strncpy_data (pong_text (serverInstanceNumber s) (client_id msg)) \<rparr>))"
  using assms by (simp add: server_handle_request_def assign_client_def Let_def)

lemma hd_strncpy_data: "src \<noteq> [] \<Longrightarrow> hd (strncpy_data src) = hd src"
  by (cases src) (simp_all add: strncpy_data_def)

lemma pong_is_not_the_error_text:
  "strncpy_data (pong_text a b) \<noteq> strncpy_data invalid_ping_text"
proof -
  have "pong_text a b \<noteq> []" "hd (pong_text a b) = CHR ''p''"
    by (simp_all add: pong_text_def)
  then have p: "hd (strncpy_data (pong_text a b)) = CHR ''p''"
    by (simp add: hd_strncpy_data)
  have "invalid_ping_text \<noteq> []" "hd invalid_ping_text = CHR ''E''"
    by (simp_all add: invalid_ping_text_def)
  then have e: "hd (strncpy_data invalid_ping_text) = CHR ''E''"
    by (simp add: hd_strncpy_data)
  show ?thesis
  proof
    assume "strncpy_data (pong_text a b) = strncpy_data invalid_ping_text"
    with p e have "CHR ''p'' = CHR ''E''" by simp
    then show False by simp
  qed
qed

text \<open>
  \<^bold>\<open>C3\<close>, as the claim states it, has every nonzero, previously unseen \<open>client_id\<close>
  registered.  The source registers it under the guard \<^verbatim>\<open>msg.client_id > 0\<close>: a valid
  request with \<open>client_id = -1\<close> is answered with a pong and the set of known clients
  stays empty.
\<close>

theorem negative_client_id_not_registered:
  "isValidPingRequest (Some (c_str (data
       (zero_Message \<lparr> status := 1, client_id := - 1, data := strncpy_data ''ping'' \<rparr>))))
   \<and> - 1 \<notin> connectedClients (initial_server 1)
   \<and> connectedClients (fst (server_handle_request (initial_server 1) (file_of zero_Message)
         (zero_Message \<lparr> status := 1, client_id := - 1, data := strncpy_data ''ping'' \<rparr>))) = {}
   \<and> status (fst (snd (server_handle_request (initial_server 1) (file_of zero_Message)
         (zero_Message \<lparr> status := 1, client_id := - 1, data := strncpy_data ''ping'' \<rparr>)))) = 2
   \<and> data (fst (snd (server_handle_request (initial_server 1) (file_of zero_Message)
         (zero_Message \<lparr> status := 1, client_id := - 1, data := strncpy_data ''ping'' \<rparr>))))
       = strncpy_data (pong_text 1 (- 1))"
proof -
  let ?req = "zero_Message \<lparr> status := 1, client_id := - 1, data := strncpy_data ''ping'' \<rparr>"
  have v: "isValidPingRequest (Some (c_str (data ?req)))"
    by (simp add: c_str_ping valid_ping)
  have n: "client_id ?req \<noteq> 0" by simp
  show ?thesis
    unfolding server_handle_old_client[OF v n] using v by (simp add: initial_server_def)
qed

text \<open>
  \<^bold>\<open>C3\<close> (amended).
  \<^item> A server that starts and handles \<open>N\<close> valid requests with \<open>client_id = 0\<close> one
    after the other (\<open>N\<close> below \<open>INT_MAX\<close>, so that the counter does not overflow)
    answers them with the ids \<open>1, 2, \<dots>, N\<close> in this order, which are strictly
    increasing and pairwise distinct, and its set of known clients is then
    \<open>{1, \<dots>, N}\<close>.
  \<^item> A valid request with a positive \<open>client_id\<close> that is not in the set is
    registered in the set and answered with a pong under its own id, not with the
    error text; no new id is taken.
  \<^item> A valid request with a negative \<open>client_id\<close> is answered with a pong under its
    own id as well, and the globals stay as they are: it is not registered.
\<close>

theorem client_id_assignment:
  "((\<forall>(h, m)\<in>set reqs. isValidPingRequest (Some (c_str (data m))) \<and> client_id m = 0)
      \<and> int (length reqs) < INT_MAX \<longrightarrow>
      (case server_run (initial_server n) reqs of
         (s1, outs) \<Rightarrow>
           map client_id outs = map int [1..<Suc (length reqs)]
           \<and> sorted_wrt (<) (map client_id outs) \<and> distinct (map client_id outs)
           \<and> map status outs = replicate (length reqs) 2
           \<and> connectedClients s1 = int ` {1..length reqs}
           \<and> nextClientId s1 = int (length reqs) + 1))
   \<and> (isValidPingRequest (Some (c_str (data msg))) \<and> 0 < client_id msg
        \<and> client_id msg \<notin> connectedClients s \<longrightarrow>
      (case server_handle_request s h msg of
         (s1, out, ok, h1) \<Rightarrow>
           connectedClients s1 = insert (client_id msg) (connectedClients s)
           \<and> nextClientId s1 = nextClientId s
           \<and> out = msg \<lparr> status := 2,
                 data := strncpy_data (pong_text (serverInstanceNumber s) (client_id msg)) \<rparr>
           \<and> data out \<noteq> strncpy_data invalid_ping_text
           \<and> (ok, h1) = writeMessage h out))
   \<and> (isValidPingRequest (Some (c_str (data msg))) \<and> client_id msg < 0 \<longrightarrow>
      (case server_handle_request s h msg of
         (s1, out, ok, h1) \<Rightarrow>
           s1 = s
           \<and> out = msg \<lparr> status := 2,
                 data := strncpy_data (pong_text (serverInstanceNumber s) (client_id msg)) \<rparr>
           \<and> (ok, h1) = writeMessage h out))"
proof -
  have a: "(\<forall>(h, m)\<in>set reqs. isValidPingRequest (Some (c_str (data m))) \<and> client_id m = 0)
      \<and> int (length reqs) < INT_MAX \<longrightarrow>
      (case server_run (initial_server n) reqs of
         (s1, outs) \<Rightarrow>
           map client_id outs = map int [1..<Suc (length reqs)]
           \<and> sorted_wrt (<) (map client_id outs) \<and> distinct (map client_id outs)
           \<and> map status outs = replicate (length reqs) 2
           \<and> connectedClients s1 = int ` {1..length reqs}
           \<and> nextClientId s1 = int (length reqs) + 1)"
  proof
    assume p: "(\<forall>(h, m)\<in>set reqs. isValidPingRequest (Some (c_str (data m))) \<and> client_id m = 0)
      \<and> int (length reqs) < INT_MAX"
    let ?s = "initial_server n"
    have n1: "nextClientId ?s = 1" and c0: "connectedClients ?s = {}"
      by (simp_all add: initial_server_def)
    have p2: "1 \<le> nextClientId ?s" by (simp add: n1)
    have p3: "nextClientId ?s + int (length reqs) \<le> INT_MAX" using p by (simp add: n1)
    obtain s1 outs where run: "server_run ?s reqs = (s1, outs)" by (cases "server_run ?s reqs")
    have m: "map (\<lambda>i. 1 + int i) [0..<length reqs] = map int [1..<Suc (length reqs)]"
      by (simp add: map_Suc_upt[symmetric] del: upt_Suc)
    have im: "(\<lambda>i. 1 + int i) ` {0..<length reqs} = int ` {1..length reqs}"
    proof -
      have "set (map (\<lambda>i. 1 + int i) [0..<length reqs]) = set (map int [1..<Suc (length reqs)])"
        by (simp only: m)
      then show ?thesis by (simp only: set_map set_upt atLeastLessThanSuc_atLeastAtMost)
    qed
    from server_run_new_clients[OF conjunct1[OF p] p2 p3]
    have ids: "map client_id outs = map int [1..<Suc (length reqs)]"
      and sts: "map status outs = replicate (length reqs) 2"
      and nxt: "nextClientId s1 = 1 + int (length reqs)"
      and cc: "connectedClients s1 = int ` {1..length reqs}"
      unfolding run n1 c0 m im by simp_all
    have so: "sorted_wrt (<) (map int [1..<Suc (length reqs)])"
      by (simp add: sorted_wrt_map del: upt_Suc)
    have di: "distinct (map int [1..<Suc (length reqs)])"
      by (simp add: distinct_map del: upt_Suc)
    show "case server_run (initial_server n) reqs of
         (s1, outs) \<Rightarrow>
           map client_id outs = map int [1..<Suc (length reqs)]
           \<and> sorted_wrt (<) (map client_id outs) \<and> distinct (map client_id outs)
           \<and> map status outs = replicate (length reqs) 2
           \<and> connectedClients s1 = int ` {1..length reqs}
           \<and> nextClientId s1 = int (length reqs) + 1"
      unfolding run prod.case ids using so di sts cc nxt by simp
  qed
  have b: "isValidPingRequest (Some (c_str (data msg))) \<and> 0 < client_id msg
        \<and> client_id msg \<notin> connectedClients s \<longrightarrow>
      (case server_handle_request s h msg of
         (s1, out, ok, h1) \<Rightarrow>
           connectedClients s1 = insert (client_id msg) (connectedClients s)
           \<and> nextClientId s1 = nextClientId s
           \<and> out = msg \<lparr> status := 2,
                 data := strncpy_data (pong_text (serverInstanceNumber s) (client_id msg)) \<rparr>
           \<and> data out \<noteq> strncpy_data invalid_ping_text
           \<and> (ok, h1) = writeMessage h out)"
  proof
    assume p: "isValidPingRequest (Some (c_str (data msg))) \<and> 0 < client_id msg
        \<and> client_id msg \<notin> connectedClients s"
    then have v: "isValidPingRequest (Some (c_str (data msg)))" and nz: "client_id msg \<noteq> 0"
      by auto
    show "case server_handle_request s h msg of
         (s1, out, ok, h1) \<Rightarrow>
           connectedClients s1 = insert (client_id msg) (connectedClients s)
           \<and> nextClientId s1 = nextClientId s
           \<and> out = msg \<lparr> status := 2,
                 data := strncpy_data (pong_text (serverInstanceNumber s) (client_id msg)) \<rparr>
           \<and> data out \<noteq> strncpy_data invalid_ping_text
           \<and> (ok, h1) = writeMessage h out"
      unfolding server_handle_old_client[OF v nz] using p
      by (cases "writeMessage h (msg \<lparr> status := 2,
                    data := strncpy_data (pong_text (serverInstanceNumber s) (client_id msg)) \<rparr>)")
        (simp add: pong_is_not_the_error_text)
  qed
  have c: "isValidPingRequest (Some (c_str (data msg))) \<and> client_id msg < 0 \<longrightarrow>
      (case server_handle_request s h msg of
         (s1, out, ok, h1) \<Rightarrow>
           s1 = s
           \<and> out = msg \<lparr> status := 2,
                 data := strncpy_data (pong_text (serverInstanceNumber s) (client_id msg)) \<rparr>
           \<and> (ok, h1) = writeMessage h out)"
  proof
    assume p: "isValidPingRequest (Some (c_str (data msg))) \<and> client_id msg < 0"
    then have v: "isValidPingRequest (Some (c_str (data msg)))" and nz: "client_id msg \<noteq> 0"
      by auto
    show "case server_handle_request s h msg of
         (s1, out, ok, h1) \<Rightarrow>
           s1 = s
           \<and> out = msg \<lparr> status := 2,
                 data := strncpy_data (pong_text (serverInstanceNumber s) (client_id msg)) \<rparr>
           \<and> (ok, h1) = writeMessage h out"
      unfolding server_handle_old_client[OF v nz] using p
      by (cases "writeMessage h (msg \<lparr> status := 2,
                    data := strncpy_data (pong_text (serverInstanceNumber s) (client_id msg)) \<rparr>)")
        simp
  qed
  from a b c show ?thesis by blast
qed

theorem client_id_assignment_witness:
  "map client_id (snd (server_run (initial_server 1)
       [(file_of zero_Message, zero_Message \<lparr> status := 1, data := strncpy_data ''ping'' \<rparr>),
        (file_of zero_Message, zero_Message \<lparr> status := 1, data := strncpy_data ''ping'' \<rparr>)]))
     = [1, 2]
   \<and> connectedClients (fst (server_run (initial_server 1)
       [(file_of zero_Message, zero_Message \<lparr> status := 1, data := strncpy_data ''ping'' \<rparr>),
        (file_of zero_Message, zero_Message \<lparr> status := 1, data := strncpy_data ''ping'' \<rparr>)]))
     = {1, 2}
   \<and> connectedClients (fst (server_handle_request (initial_server 1) (file_of zero_Message)
         (zero_Message \<lparr> status := 1, client_id := 7, data := strncpy_data ''ping'' \<rparr>))) = {7}
   \<and> fst (server_handle_request (initial_server 1) (file_of zero_Message)
         (zero_Message \<lparr> status := 1, client_id := - 1, data := strncpy_data ''ping'' \<rparr>))
       = initial_server 1"
proof -
  let ?p0 = "zero_Message \<lparr> status := 1, data := strncpy_data ''ping'' \<rparr>"
  let ?p7 = "zero_Message \<lparr> status := 1, client_id := 7, data := strncpy_data ''ping'' \<rparr>"
  let ?pn = "zero_Message \<lparr> status := 1, client_id := - 1, data := strncpy_data ''ping'' \<rparr>"
  let ?h = "file_of zero_Message"
  let ?reqs = "[(?h, ?p0), (?h, ?p0)]"
  have v0: "isValidPingRequest (Some (c_str (data ?p0)))" "client_id ?p0 = 0"
    by (simp_all add: c_str_ping valid_ping zero_Message_def)
  have h1: "(\<forall>(h, m)\<in>set ?reqs. isValidPingRequest (Some (c_str (data m))) \<and> client_id m = 0)
            \<and> int (length ?reqs) < INT_MAX"
    using v0 by (simp add: INT_MAX_def)
  have h2: "isValidPingRequest (Some (c_str (data ?p7))) \<and> 0 < client_id ?p7
            \<and> client_id ?p7 \<notin> connectedClients (initial_server 1)"
    by (simp add: c_str_ping valid_ping initial_server_def)
  have h3: "isValidPingRequest (Some (c_str (data ?pn))) \<and> client_id ?pn < 0"
    by (simp add: c_str_ping valid_ping)
  have u: "map int [1..<Suc (length ?reqs)] = [1, 2]" by (simp add: upt_rec)
  have i: "int ` {1..length ?reqs} = {1, 2}"
  proof -
    have "set (map int [1..<Suc (length ?reqs)]) = set [1, 2]" by (simp only: u)
    then show ?thesis by (simp only: set_map set_upt atLeastLessThanSuc_atLeastAtMost list.set)
  qed
  obtain s1 outs where run: "server_run (initial_server 1) ?reqs = (s1, outs)"
    by (cases "server_run (initial_server 1) ?reqs")
  obtain s7 o7 k7 f7 where e7:
    "server_handle_request (initial_server 1) ?h ?p7 = (s7, o7, k7, f7)"
    by (metis prod_cases4)
  obtain sn on kn fn where en:
    "server_handle_request (initial_server 1) ?h ?pn = (sn, on, kn, fn)"
    by (metis prod_cases4)
  have a: "map client_id outs = [1, 2] \<and> connectedClients s1 = {1, 2}"
    using client_id_assignment[of ?reqs 1 ?p7 "initial_server 1" ?h] h1
    unfolding run prod.case u i by blast
  have b: "connectedClients s7 = {7}"
    using client_id_assignment[of ?reqs 1 ?p7 "initial_server 1" ?h] h2
    unfolding e7 prod.case by (simp add: initial_server_def)
  have c: "sn = initial_server 1"
    using client_id_assignment[of ?reqs 1 ?pn "initial_server 1" ?h] h3
    unfolding en prod.case by blast
  show ?thesis unfolding run e7 en using a b c by simp
qed

subsection \<open>Names and the numbers in them\<close>

lemma find_str_at_start: "find_str s t = Some 0 \<longleftrightarrow> starts_with s t"
proof (cases s)
  case Nil
  then show ?thesis by (cases t) simp_all
next
  case (Cons x xs)
  then show ?thesis by simp
qed

lemma starts_with_iff: "starts_with s t \<longleftrightarrow> (\<exists>r. s = t @ r)"
  by (induction s t rule: starts_with.induct) auto

lemma find_char_Some:
  "find_char s c = Some i \<longleftrightarrow> i < length s \<and> s ! i = c \<and> c \<notin> set (take i s)"
proof (induction s arbitrary: i)
  case Nil
  then show ?case by simp
next
  case (Cons x xs)
  show ?case
  proof (cases "x = c")
    case True
    then show ?thesis by (cases i) auto
  next
    case False
    then show ?thesis using Cons.IH by (cases i) auto
  qed
qed

lemma find_char_None: "find_char s c = None \<longleftrightarrow> c \<notin> set s"
  by (induction s) auto

lemma find_char_split:
  "find_char s c = Some i \<longleftrightarrow> (\<exists>rest. s = take i s @ c # rest \<and> c \<notin> set (take i s) \<and> i < length s)"
proof
  assume "find_char s c = Some i"
  then have i: "i < length s" "s ! i = c" "c \<notin> set (take i s)" by (simp_all add: find_char_Some)
  have "s = take i s @ c # drop (Suc i) s" using id_take_nth_drop[OF i(1)] i(2) by simp
  with i show "\<exists>rest. s = take i s @ c # rest \<and> c \<notin> set (take i s) \<and> i < length s" by blast
next
  assume "\<exists>rest. s = take i s @ c # rest \<and> c \<notin> set (take i s) \<and> i < length s"
  then obtain rest where r: "s = take i s @ c # rest" "c \<notin> set (take i s)" "i < length s" by blast
  have "s ! i = (take i s @ c # rest) ! i" using r(1) by simp
  also have "\<dots> = c" using r(3) by (simp add: nth_append)
  finally show "find_char s c = Some i" using r by (simp add: find_char_Some)
qed

text \<open>What \<open>stoi\<close> reads: white space, at most one sign, a run of digits that is not
  followed by a digit, and whatever comes after; the number is the value of the digits
  with the sign, and has to be an \<^verbatim>\<open>int\<close>.\<close>

lemma not_cspace_digit: "is_digit c \<Longrightarrow> \<not> is_cspace c"
  by (auto simp: is_digit_def is_cspace_def)

lemma not_sign_digit: "is_digit c \<Longrightarrow> c \<noteq> CHR ''-'' \<and> c \<noteq> CHR ''+''"
  by (auto simp: is_digit_def)

lemma stoi_reads:
  assumes "\<forall>c\<in>set sp. is_cspace c" "sg = [] \<or> sg = ''+'' \<or> sg = ''-''"
    "ds \<noteq> []" "\<forall>c\<in>set ds. is_digit c" "junk = [] \<or> \<not> is_digit (hd junk)"
  shows "stoi (sp @ sg @ ds @ junk)
           = (let n = (if sg = ''-'' then - decimal_value ds else decimal_value ds)
              in if is_int32 n then Some n else None)"
proof -
  obtain d ds' where ds: "ds = d # ds'" using assms(3) by (cases ds) auto
  have d: "is_digit d" using assms(4) ds by simp
  have h: "\<not> is_cspace (hd (sg @ ds @ junk))" "sg @ ds @ junk \<noteq> []"
    using assms(2) d not_cspace_digit[OF d] by (auto simp: ds is_cspace_def)
  have "dropWhile is_cspace (sp @ sg @ ds @ junk) = dropWhile is_cspace (sg @ ds @ junk)"
    using assms(1) by (simp add: dropWhile_append2)
  also have "\<dots> = sg @ ds @ junk"
    using h by (cases "sg @ ds @ junk") simp_all
  finally have dw: "dropWhile is_cspace (sp @ sg @ ds @ junk) = sg @ ds @ junk" .
  have rs: "read_sign (sg @ ds @ junk) = (sg = ''-'', ds @ junk)"
    using assms(2) not_sign_digit[OF d] by (auto simp: read_sign_def ds)
  have tw: "takeWhile is_digit (ds @ junk) = ds"
  proof (cases junk)
    case Nil
    then show ?thesis using assms(4) by simp
  next
    case (Cons j js)
    then have "\<not> is_digit j" using assms(5) by simp
    then show ?thesis using assms(4) Cons by (simp add: takeWhile_append2)
  qed
  show ?thesis
    unfolding stoi_def dw rs prod.case Let_def tw decimal_value_def
    using assms(3) by simp
qed

lemma stoi_parts:
  assumes "stoi s = Some n"
  shows "\<exists>sp sg ds junk. s = sp @ sg @ ds @ junk \<and> (\<forall>c\<in>set sp. is_cspace c)
           \<and> (sg = [] \<or> sg = ''+'' \<or> sg = ''-'') \<and> ds \<noteq> [] \<and> (\<forall>c\<in>set ds. is_digit c)
           \<and> (junk = [] \<or> \<not> is_digit (hd junk))
           \<and> n = (if sg = ''-'' then - decimal_value ds else decimal_value ds) \<and> is_int32 n"
proof -
  let ?sp = "takeWhile is_cspace s" and ?r = "dropWhile is_cspace s"
  obtain neg s2 where rs: "read_sign ?r = (neg, s2)" by (cases "read_sign ?r")
  let ?sg = "if neg then ''-'' else if ?r \<noteq> [] \<and> hd ?r = CHR ''+'' then ''+'' else []"
  let ?ds = "takeWhile is_digit s2" and ?junk = "dropWhile is_digit s2"
  have r: "?r = ?sg @ s2"
    using rs by (cases ?r) (auto simp: read_sign_def split: if_splits)
  have s: "s = ?sp @ ?sg @ ?ds @ ?junk"
    using r takeWhile_dropWhile_id[of is_cspace s] takeWhile_dropWhile_id[of is_digit s2]
    by (metis append.assoc)
  have ne: "?ds \<noteq> []" using assms rs by (auto simp: stoi_def Let_def split: if_splits)
  have n: "n = (if neg then - decimal_value ?ds else decimal_value ?ds)"
    "is_int32 n"
    using assms rs ne by (auto simp: stoi_def Let_def decimal_value_def split: if_splits)
  have sg: "?sg = [] \<or> ?sg = ''+'' \<or> ?sg = ''-''" by simp
  have neg: "neg \<longleftrightarrow> ?sg = ''-''" by simp
  have sp: "\<forall>c\<in>set ?sp. is_cspace c" by (auto dest: set_takeWhileD)
  have dg: "\<forall>c\<in>set ?ds. is_digit c" by (auto dest: set_takeWhileD)
  have jk: "?junk = [] \<or> \<not> is_digit (hd ?junk)"
    using hd_dropWhile[of is_digit s2] by blast
  have n': "n = (if ?sg = ''-'' then - decimal_value ?ds else decimal_value ?ds)"
    using n(1) neg by presburger
  from s sp sg ne dg jk n' n(2) show ?thesis by blast
qed

lemma stoi_iff:
  "stoi s = Some n \<longleftrightarrow>
     (\<exists>sp sg ds junk. s = sp @ sg @ ds @ junk \<and> (\<forall>c\<in>set sp. is_cspace c)
        \<and> (sg = [] \<or> sg = ''+'' \<or> sg = ''-'') \<and> ds \<noteq> [] \<and> (\<forall>c\<in>set ds. is_digit c)
        \<and> (junk = [] \<or> \<not> is_digit (hd junk))
        \<and> n = (if sg = ''-'' then - decimal_value ds else decimal_value ds) \<and> is_int32 n)"
proof
  assume "stoi s = Some n"
  then show "\<exists>sp sg ds junk. s = sp @ sg @ ds @ junk \<and> (\<forall>c\<in>set sp. is_cspace c)
        \<and> (sg = [] \<or> sg = ''+'' \<or> sg = ''-'') \<and> ds \<noteq> [] \<and> (\<forall>c\<in>set ds. is_digit c)
        \<and> (junk = [] \<or> \<not> is_digit (hd junk))
        \<and> n = (if sg = ''-'' then - decimal_value ds else decimal_value ds) \<and> is_int32 n"
    by (rule stoi_parts)
next
  assume "\<exists>sp sg ds junk. s = sp @ sg @ ds @ junk \<and> (\<forall>c\<in>set sp. is_cspace c)
        \<and> (sg = [] \<or> sg = ''+'' \<or> sg = ''-'') \<and> ds \<noteq> [] \<and> (\<forall>c\<in>set ds. is_digit c)
        \<and> (junk = [] \<or> \<not> is_digit (hd junk))
        \<and> n = (if sg = ''-'' then - decimal_value ds else decimal_value ds) \<and> is_int32 n"
  then obtain sp sg ds junk where p: "s = sp @ sg @ ds @ junk" "\<forall>c\<in>set sp. is_cspace c"
    "sg = [] \<or> sg = ''+'' \<or> sg = ''-''" "ds \<noteq> []" "\<forall>c\<in>set ds. is_digit c"
    "junk = [] \<or> \<not> is_digit (hd junk)"
    "n = (if sg = ''-'' then - decimal_value ds else decimal_value ds)" "is_int32 n"
    by blast
  show "stoi s = Some n"
    unfolding p(1) stoi_reads[OF p(2-6)] Let_def using p(7,8) by simp
qed

lemma entry_number_iff:
  "entry_number f = Some n \<longleftrightarrow>
     (\<exists>numStr rest. f = SERVER_FILE_PREFIX @ numStr @ CHR ''.'' # rest
        \<and> CHR ''.'' \<notin> set numStr \<and> stoi numStr = Some n)"
proof
  assume e: "entry_number f = Some n"
  then have st: "starts_with f SERVER_FILE_PREFIX"
    by (auto simp: entry_number_def find_str_at_start split: if_splits)
  then obtain r where r: "f = SERVER_FILE_PREFIX @ r" by (auto simp: starts_with_iff)
  have sf: "substr_from f (length SERVER_FILE_PREFIX) = r" by (simp add: substr_from_def r)
  from e st obtain dotPos where d: "find_char r (CHR ''.'') = Some dotPos"
    "stoi (substr r 0 dotPos) = Some n"
    by (auto simp: entry_number_def find_str_at_start sf Let_def split: if_splits option.splits)
  from d(1) obtain rest where s: "r = take dotPos r @ CHR ''.'' # rest"
    "CHR ''.'' \<notin> set (take dotPos r)"
    unfolding find_char_split by blast
  have "f = SERVER_FILE_PREFIX @ take dotPos r @ CHR ''.'' # rest" using r s(1) by simp
  moreover have "stoi (take dotPos r) = Some n" using d(2) by (simp add: substr_def)
  ultimately show "\<exists>numStr rest. f = SERVER_FILE_PREFIX @ numStr @ CHR ''.'' # rest
        \<and> CHR ''.'' \<notin> set numStr \<and> stoi numStr = Some n"
    using s(2) by blast
next
  assume "\<exists>numStr rest. f = SERVER_FILE_PREFIX @ numStr @ CHR ''.'' # rest
        \<and> CHR ''.'' \<notin> set numStr \<and> stoi numStr = Some n"
  then obtain numStr rest where p: "f = SERVER_FILE_PREFIX @ numStr @ CHR ''.'' # rest"
    "CHR ''.'' \<notin> set numStr" "stoi numStr = Some n" by blast
  have st: "find_str f SERVER_FILE_PREFIX = Some 0"
    unfolding find_str_at_start starts_with_iff p(1) by blast
  have sf: "substr_from f (length SERVER_FILE_PREFIX) = numStr @ CHR ''.'' # rest"
    by (simp add: substr_from_def p(1))
  have t: "take (length numStr) (numStr @ CHR ''.'' # rest) = numStr" by simp
  have fc: "find_char (numStr @ CHR ''.'' # rest) (CHR ''.'') = Some (length numStr)"
    unfolding find_char_Some t using p(2) by (simp add: nth_append)
  show "entry_number f = Some n"
    unfolding entry_number_def st sf Let_def fc using p(3) by (simp add: substr_def)
qed

subsection \<open>Discovery: enumeration, order and selection\<close>






















subsection \<open>The start of a server\<close>

lemma finite_entry_numbers: "finite {n. \<exists>f\<in>set dir. entry_number f = Some n}"
proof -
  have "{n. \<exists>f\<in>set dir. entry_number f = Some n} \<subseteq> (\<lambda>f. the (entry_number f)) ` set dir"
    by force
  then show ?thesis by (rule finite_subset) simp
qed

lemma entry_numbers_Cons:
  "{n. \<exists>g\<in>set (f # dir). entry_number g = Some n}
     = (case entry_number f of
          None \<Rightarrow> {n. \<exists>g\<in>set dir. entry_number g = Some n}
        | Some k \<Rightarrow> insert k {n. \<exists>g\<in>set dir. entry_number g = Some n})"
  by (cases "entry_number f") auto

lemma foldl_scan_entry:
  "foldl scan_entry m dir = Max (insert m {n. \<exists>f\<in>set dir. entry_number f = Some n})"
proof (induction dir arbitrary: m)
  case Nil
  then show ?case by simp
next
  case (Cons f dir)
  let ?N = "{n. \<exists>g\<in>set dir. entry_number g = Some n}"
  have fin: "finite ?N" by (rule finite_entry_numbers)
  show ?case
  proof (cases "entry_number f")
    case None
    then have "scan_entry m f = m" by (simp add: scan_entry_def)
    then show ?thesis
      unfolding entry_numbers_Cons None by (simp add: Cons.IH)
  next
    case (Some k)
    have "Max (insert (max k m) ?N) = Max (insert m (insert k ?N))"
      using fin by (cases "?N = {}") (simp_all add: max.commute max.left_commute max.assoc)
    moreover have "scan_entry m f = max k m"
      using Some by (simp add: scan_entry_def max_def)
    ultimately show ?thesis
      unfolding entry_numbers_Cons Some by (simp add: Cons.IH)
  qed
qed

text \<open>
  \<^bold>\<open>C8\<close>, as the claim states it, has a non-numeric suffix count as absent.  The scan
  hands the text between the prefix and the first dot to \<^verbatim>\<open>std::stoi\<close>, which reads
  the digits the text starts with and ignores what follows them: the suffix \<^verbatim>\<open>12abc\<close>
  is no number, and yet a directory holding \<^verbatim>\<open>ipc_server_12abc.bin\<close> alone makes the
  next server number 13.
\<close>

theorem suffix_with_leading_digits_is_counted:
  "stoi ''12abc'' = Some 12
   \<and> entry_number ''ipc_server_12abc.bin'' = Some 12
   \<and> instance_number [''ipc_server_12abc.bin''] = 13"
  by code_simp

text \<open>
  \<^bold>\<open>C8\<close> (amended).  A starting server takes as its instance number one more than the
  greatest of 0 and the numbers that \<^verbatim>\<open>std::stoi\<close> reads from the directory entries:
  for an entry that starts with the prefix and has a dot after it, from the text
  between the prefix and the first dot.  \<^verbatim>\<open>std::stoi\<close> reads a number from a text
  exactly when the text is white space, at most one sign and a run of digits, followed
  by anything that does not start with a digit, and the digits with the sign are the
  value of an \<^verbatim>\<open>int\<close>; so \<^verbatim>\<open>12abc\<close> counts as 12, and an entry whose text has no such
  start, or that has no dot, counts as absent.  Only names are looked at, never the
  files behind them.  (The sum is taken in an \<^verbatim>\<open>int\<close>: stated for a greatest number
  below \<open>INT_MAX\<close>.)  With the name made of the prefix, the number and \<^verbatim>\<open>.bin\<close>, the
  server tries to create its mailbox file exclusively; when that fails it opens the
  existing file of that name; when that fails too it gives up.  The file it holds then
  is the one it serves, after writing the zero record to it when it is shorter than a
  record (the start fails when that write fails).
\<close>

theorem server_start_number_and_mailbox:
  "findMaxServerNumber dir = Max (insert 0 {n. \<exists>f\<in>set dir. entry_number f = Some n})
   \<and> (entry_number f = Some k \<longleftrightarrow>
        (\<exists>numStr rest. f = SERVER_FILE_PREFIX @ numStr @ CHR ''.'' # rest
           \<and> CHR ''.'' \<notin> set numStr \<and> stoi numStr = Some k))
   \<and> (stoi s = Some k \<longleftrightarrow>
        (\<exists>sp sg ds junk. s = sp @ sg @ ds @ junk \<and> (\<forall>c\<in>set sp. is_cspace c)
           \<and> (sg = [] \<or> sg = ''+'' \<or> sg = ''-'') \<and> ds \<noteq> [] \<and> (\<forall>c\<in>set ds. is_digit c)
           \<and> (junk = [] \<or> \<not> is_digit (hd junk))
           \<and> k = (if sg = ''-'' then - decimal_value ds else decimal_value ds) \<and> is_int32 k))
   \<and> (findMaxServerNumber dir < INT_MAX \<longrightarrow>
        instance_number dir = findMaxServerNumber dir + 1)
   \<and> (sys CreateExclusive (mailbox_name (instance_number dir)) = Some h
        \<and> \<not> fd_seek_fails h \<and> sizeof_Message \<le> length (fd_bytes h)
        \<longrightarrow> server_start dir sys
            = Started (instance_number dir) (mailbox_name (instance_number dir)) True h)
   \<and> (sys CreateExclusive (mailbox_name (instance_number dir)) = None
        \<and> sys OpenExisting (mailbox_name (instance_number dir)) = Some h
        \<and> \<not> fd_seek_fails h \<and> sizeof_Message \<le> length (fd_bytes h)
        \<longrightarrow> server_start dir sys
            = Started (instance_number dir) (mailbox_name (instance_number dir)) False h)
   \<and> (sys CreateExclusive (mailbox_name (instance_number dir)) = Some h
        \<and> (fd_seek_fails h \<or> length (fd_bytes h) < sizeof_Message)
        \<longrightarrow> server_start dir sys
            = (if fst (writeMessage h zero_Message)
               then Started (instance_number dir) (mailbox_name (instance_number dir)) True
                      (snd (writeMessage h zero_Message))
               else StartFailed))
   \<and> (sys CreateExclusive (mailbox_name (instance_number dir)) = None
        \<and> sys OpenExisting (mailbox_name (instance_number dir)) = Some h
        \<and> (fd_seek_fails h \<or> length (fd_bytes h) < sizeof_Message)
        \<longrightarrow> server_start dir sys
            = (if fst (writeMessage h zero_Message)
               then Started (instance_number dir) (mailbox_name (instance_number dir)) False
                      (snd (writeMessage h zero_Message))
               else StartFailed))
   \<and> (sys CreateExclusive (mailbox_name (instance_number dir)) = None
        \<and> sys OpenExisting (mailbox_name (instance_number dir)) = None
        \<longrightarrow> server_start dir sys = StartFailed)"
proof -
  let ?n = "instance_number dir"
  let ?name = "mailbox_name ?n"
  have a: "findMaxServerNumber dir = Max (insert 0 {n. \<exists>f\<in>set dir. entry_number f = Some n})"
    by (simp add: findMaxServerNumber_def foldl_scan_entry)
  have nonneg: "0 \<le> findMaxServerNumber dir"
    unfolding a using finite_entry_numbers[of dir] by (simp add: Max_ge)
  have c: "findMaxServerNumber dir < INT_MAX \<longrightarrow>
        instance_number dir = findMaxServerNumber dir + 1"
    using nonneg unfolding instance_number_def
    by (auto intro!: wrap32_id simp: is_int32_def INT_MAX_def)
  have d1: "sys CreateExclusive ?name = Some h
        \<and> \<not> fd_seek_fails h \<and> sizeof_Message \<le> length (fd_bytes h)
        \<longrightarrow> server_start dir sys = Started ?n ?name True h"
    by (simp add: server_start_def Let_def)
  have d2: "sys CreateExclusive ?name = None \<and> sys OpenExisting ?name = Some h
        \<and> \<not> fd_seek_fails h \<and> sizeof_Message \<le> length (fd_bytes h)
        \<longrightarrow> server_start dir sys = Started ?n ?name False h"
    by (simp add: server_start_def Let_def)
  have d3: "sys CreateExclusive ?name = Some h
        \<and> (fd_seek_fails h \<or> length (fd_bytes h) < sizeof_Message)
        \<longrightarrow> server_start dir sys
            = (if fst (writeMessage h zero_Message)
               then Started ?n ?name True (snd (writeMessage h zero_Message))
               else StartFailed)"
    by (cases "writeMessage h zero_Message") (auto simp: server_start_def Let_def)
  have d4: "sys CreateExclusive ?name = None \<and> sys OpenExisting ?name = Some h
        \<and> (fd_seek_fails h \<or> length (fd_bytes h) < sizeof_Message)
        \<longrightarrow> server_start dir sys
            = (if fst (writeMessage h zero_Message)
               then Started ?n ?name False (snd (writeMessage h zero_Message))
               else StartFailed)"
    by (cases "writeMessage h zero_Message") (auto simp: server_start_def Let_def)
  have d5: "sys CreateExclusive ?name = None \<and> sys OpenExisting ?name = None
        \<longrightarrow> server_start dir sys = StartFailed"
    by (simp add: server_start_def Let_def)
  show ?thesis
    by (rule conjI[OF a conjI[OF entry_number_iff conjI[OF stoi_iff
          conjI[OF c conjI[OF d1 conjI[OF d2 conjI[OF d3 conjI[OF d4 d5]]]]]]]])
qed

theorem server_start_number_and_mailbox_witness:
  "findMaxServerNumber [''ipc_server_3.bin'', ''ipc_server_abc.bin'', ''notes.txt'',
                        ''ipc_server_7.bin'', ''ipc_server_2.bin''] = 7
   \<and> instance_number [''ipc_server_3.bin'', ''ipc_server_abc.bin'', ''notes.txt'',
                       ''ipc_server_7.bin'', ''ipc_server_2.bin''] = 8
   \<and> mailbox_name 8 = ''ipc_server_8.bin''
   \<and> instance_number [] = 1
   \<and> server_start [''ipc_server_3.bin'']
        (open_in (\<lambda>n. if n = ''ipc_server_3.bin'' then Some [] else None))
       = Started 4 ''ipc_server_4.bin'' True (file_of zero_Message)
   \<and> server_start [''ipc_server_3.bin'']
        (open_in (\<lambda>n. if n = ''ipc_server_4.bin''
                      then Some (encode (zero_Message \<lparr> status := 2 \<rparr>)) else None))
       = Started 4 ''ipc_server_4.bin'' False (file_of (zero_Message \<lparr> status := 2 \<rparr>))
   \<and> server_start [''ipc_server_3.bin'']
        (open_in (\<lambda>n. if n = ''ipc_server_4.bin'' then Some [] else None))
       = Started 4 ''ipc_server_4.bin'' False (file_of zero_Message)
   \<and> server_start [''ipc_server_3.bin''] (\<lambda>mode n. None) = StartFailed"
proof -
  let ?dir = "[''ipc_server_3.bin'', ''ipc_server_abc.bin'', ''notes.txt'',
               ''ipc_server_7.bin'', ''ipc_server_2.bin'']"
  let ?d3 = "[''ipc_server_3.bin'']"
  let ?none = "\<lambda>(mode :: open_mode) (n :: string). (None :: fd_state option)"
  let ?new = "open_in (\<lambda>n. if n = ''ipc_server_3.bin'' then Some [] else None)"
  let ?old = "open_in (\<lambda>n. if n = ''ipc_server_4.bin''
                          then Some (encode (zero_Message \<lparr> status := 2 \<rparr>)) else None)"
  let ?short = "open_in (\<lambda>n. if n = ''ipc_server_4.bin'' then Some [] else None)"
  let ?e = "\<lparr> fd_bytes = [], fd_seek_fails = False, fd_read_fails = False,
              fd_write_room = Some sizeof_Message \<rparr>"
  have m: "findMaxServerNumber ?dir = 7" by code_simp
  have m0: "findMaxServerNumber [] = 0" by code_simp
  note T = server_start_number_and_mailbox
  have i: "instance_number ?dir = 8"
    using T[where dir = ?dir, THEN conjunct2, THEN conjunct2, THEN conjunct2, THEN conjunct1]
    unfolding m by (simp add: INT_MAX_def)
  have i0: "instance_number [] = 1"
    using T[where dir = "[]", THEN conjunct2, THEN conjunct2, THEN conjunct2, THEN conjunct1]
    unfolding m0 by (simp add: INT_MAX_def)
  have n: "mailbox_name 8 = ''ipc_server_8.bin''" by code_simp
  have n3: "instance_number ?d3 = 4" by code_simp
  have n4: "mailbox_name 4 = ''ipc_server_4.bin''" by code_simp
  have w0: "writeMessage ?e zero_Message = (True, file_of zero_Message)" by code_simp
  have o1: "?new CreateExclusive ''ipc_server_4.bin'' = Some ?e" by (simp add: open_in_def)
  have o2: "?old CreateExclusive ''ipc_server_4.bin'' = None"
    "?old OpenExisting ''ipc_server_4.bin'' = Some (file_of (zero_Message \<lparr> status := 2 \<rparr>))"
    by (simp_all add: open_in_def file_of_def)
  have o3: "?short CreateExclusive ''ipc_server_4.bin'' = None"
    "?short OpenExisting ''ipc_server_4.bin'' = Some ?e"
    by (simp_all add: open_in_def)
  have l2: "length (fd_bytes (file_of (zero_Message \<lparr> status := 2 \<rparr>))) = 264"
    by (simp add: file_of_def length_encode zero_Message_def)
  have h1: "?new CreateExclusive (mailbox_name (instance_number ?d3)) = Some ?e
        \<and> (fd_seek_fails ?e \<or> length (fd_bytes ?e) < sizeof_Message)"
    unfolding n3 n4 o1 by (simp add: sizeof_Message_def)
  have s1: "server_start ?d3 ?new = Started 4 ''ipc_server_4.bin'' True (file_of zero_Message)"
    using T[where dir = ?d3 and sys = ?new and h = ?e, THEN conjunct2, THEN conjunct2,
            THEN conjunct2, THEN conjunct2, THEN conjunct2, THEN conjunct2, THEN conjunct1,
            THEN mp, OF h1]
    unfolding n3 n4 w0 by simp
  have h2: "?old CreateExclusive (mailbox_name (instance_number ?d3)) = None
        \<and> ?old OpenExisting (mailbox_name (instance_number ?d3))
            = Some (file_of (zero_Message \<lparr> status := 2 \<rparr>))
        \<and> \<not> fd_seek_fails (file_of (zero_Message \<lparr> status := 2 \<rparr>))
        \<and> sizeof_Message \<le> length (fd_bytes (file_of (zero_Message \<lparr> status := 2 \<rparr>)))"
    unfolding n3 n4 o2 l2 by (simp add: sizeof_Message_def file_of_def)
  have s2: "server_start ?d3 ?old
              = Started 4 ''ipc_server_4.bin'' False (file_of (zero_Message \<lparr> status := 2 \<rparr>))"
    using T[where dir = ?d3 and sys = ?old and h = "file_of (zero_Message \<lparr> status := 2 \<rparr>)",
            THEN conjunct2, THEN conjunct2, THEN conjunct2, THEN conjunct2, THEN conjunct2,
            THEN conjunct1, THEN mp, OF h2]
    unfolding n3 n4 by simp
  have h3: "?short CreateExclusive (mailbox_name (instance_number ?d3)) = None
        \<and> ?short OpenExisting (mailbox_name (instance_number ?d3)) = Some ?e
        \<and> (fd_seek_fails ?e \<or> length (fd_bytes ?e) < sizeof_Message)"
    unfolding n3 n4 o3 by (simp add: sizeof_Message_def)
  have s3: "server_start ?d3 ?short = Started 4 ''ipc_server_4.bin'' False (file_of zero_Message)"
    using T[where dir = ?d3 and sys = ?short and h = ?e, THEN conjunct2, THEN conjunct2,
            THEN conjunct2, THEN conjunct2, THEN conjunct2, THEN conjunct2, THEN conjunct2,
            THEN conjunct1, THEN mp, OF h3]
    unfolding n3 n4 w0 by simp
  have e: "server_start ?d3 ?none = StartFailed"
    using T[where dir = ?d3 and sys = ?none, THEN conjunct2, THEN conjunct2,
            THEN conjunct2, THEN conjunct2, THEN conjunct2, THEN conjunct2, THEN conjunct2,
            THEN conjunct2]
    by simp
  from m i n i0 s1 s2 s3 e show ?thesis by (intro conjI)
qed

subsection \<open>The clients\<close>

lemma readMessage_observed:
  "fst (readMessage h buf) \<longleftrightarrow> observed_status h \<noteq> None"
  "observed_status h = Some s \<Longrightarrow> status (snd (readMessage h buf)) = s"
proof -
  have p: "fst (readMessage h buf) = False"
    if "\<not> fd_seek_fails h" "\<not> fd_read_fails h"
       "bytes_obtained h \<noteq> 0" "bytes_obtained h \<noteq> sizeof_Message"
    using readMessage_partial[OF that, of buf] by simp
  have e: "fst (readMessage h buf) = False" if "fd_seek_fails h \<or> fd_read_fails h"
    using that by (auto simp: readMessage_def read_record_def)
  have z: "status zero_Message = 0" by (simp add: zero_Message_def)
  show "fst (readMessage h buf) \<longleftrightarrow> observed_status h \<noteq> None"
    using p e readMessage_full[of h buf] readMessage_empty[of h buf]
    by (auto simp: observed_status_def)
  show "observed_status h = Some s \<Longrightarrow> status (snd (readMessage h buf)) = s"
    using z readMessage_full[of h buf] readMessage_empty[of h buf]
    by (auto simp: observed_status_def split: if_splits)
qed

lemma readMessage_cases:
  obtains (failed) m where "observed_status h = None" "readMessage h buf = (False, m)"
  | (read) s m where "observed_status h = Some s" "readMessage h buf = (True, m)" "status m = s"
proof (cases "observed_status h")
  case None
  then have "fst (readMessage h buf) = False" by (simp add: readMessage_observed(1))
  then show ?thesis using None failed by (cases "readMessage h buf") auto
next
  case (Some s)
  then have "fst (readMessage h buf)" "status (snd (readMessage h buf)) = s"
    by (simp_all add: readMessage_observed)
  then show ?thesis using Some read by (cases "readMessage h buf") auto
qed

text \<open>The loop waiting for a free server passes every element that is running and
  shows a status other than FREE, as long as the counter allows, with a pause each.\<close>

lemma wait_for_free_passes:
  assumes "\<forall>t\<in>set pre. running t \<and> observed_status (mailbox t) \<noteq> None
                         \<and> observed_status (mailbox t) \<noteq> Some 0"
    and "a + int (length pre) \<le> MAX_WAIT_ATTEMPTS"
  shows "\<exists>m. wait_for_free (pre @ rest) a msg
              = (case wait_for_free rest (a + int (length pre)) m of
                   None \<Rightarrow> None
                 | Some (a1, m1, r, ev) \<Rightarrow>
                     Some (a1, m1, r, replicate (length pre) (Sleep 100) @ ev))"
  using assms
proof (induction pre arbitrary: a msg)
  case Nil
  have "wait_for_free ([] @ rest) a msg
          = (case wait_for_free rest (a + int (length ([] :: tick list))) msg of
               None \<Rightarrow> None
             | Some (a1, m1, r, ev) \<Rightarrow>
                 Some (a1, m1, r, replicate (length ([] :: tick list)) (Sleep 100) @ ev))"
    by (simp split: option.splits)
  then show ?case by (rule exI)
next
  case (Cons t pre)
  have t: "running t" "observed_status (mailbox t) \<noteq> None" "observed_status (mailbox t) \<noteq> Some 0"
    using Cons.prems(1) by simp_all
  have a: "a < MAX_WAIT_ATTEMPTS" using Cons.prems(2) by simp
  obtain s m0 where r: "readMessage (mailbox t) msg = (True, m0)" "status m0 = s" "s \<noteq> 0"
    using t(2,3) by (cases rule: readMessage_cases[of "mailbox t" msg]) auto
  have p: "\<forall>t\<in>set pre. running t \<and> observed_status (mailbox t) \<noteq> None
                         \<and> observed_status (mailbox t) \<noteq> Some 0"
    using Cons.prems(1) by simp
  have q: "a + 1 + int (length pre) \<le> MAX_WAIT_ATTEMPTS" using Cons.prems(2) by simp
  from Cons.IH[OF p q, of m0] obtain m where
    ih: "wait_for_free (pre @ rest) (a + 1) m0
           = (case wait_for_free rest (a + 1 + int (length pre)) m of
                None \<Rightarrow> None
              | Some (a1, m1, r, ev) \<Rightarrow> Some (a1, m1, r, replicate (length pre) (Sleep 100) @ ev))"
    by blast
  have n: "a + 1 + int (length pre) = a + int (length (t # pre))" by simp
  have "wait_for_free ((t # pre) @ rest) a msg
          = (case wait_for_free (pre @ rest) (a + 1) m0 of
               None \<Rightarrow> None
             | Some (a1, m1, r, ev) \<Rightarrow> Some (a1, m1, r, Sleep 100 # ev))"
    using t(1) a r by simp
  also have "\<dots> = (case wait_for_free rest (a + int (length (t # pre))) m of
                     None \<Rightarrow> None
                   | Some (a1, m1, r, ev) \<Rightarrow>
                       Some (a1, m1, r, replicate (length (t # pre)) (Sleep 100) @ ev))"
    unfolding ih n
    by (cases "wait_for_free rest (a + int (length (t # pre))) m") auto
  finally show ?case by blast
qed

lemma wait_for_free_at_limit:
  "wait_for_free ticks MAX_WAIT_ATTEMPTS msg = Some (MAX_WAIT_ATTEMPTS, msg, ticks, [])"
  by (cases ticks) simp_all


lemma wait_for_free_stopped:
  assumes "a < MAX_WAIT_ATTEMPTS" "\<not> running t"
  shows "wait_for_free (t # rest) a msg = Some (a, msg, rest, [])"
  using assms by simp

text \<open>While \<^verbatim>\<open>running\<close> stays set, a mailbox that shows status REQUEST at each of the
  five reads of the attempt budget makes the loop give up after these five attempts
  with a pause of 100 ms each; the client prints \<open>Server is busy.\<close> and the turn ends
  there: the events hold no write, and no file is written.\<close>

lemma busy_server_gives_up:
  "5 \<le> length ticks
   \<and> (\<forall>t\<in>set (take 5 ticks). running t \<and> observed_status (mailbox t) = Some 1)
   \<longrightarrow> ping_exchange currentClientId command ticks
        = (Busy, replicate 5 (Sleep 100) @ [Print ''Server is busy.''], currentClientId, None)"
proof
  assume p: "5 \<le> length ticks
   \<and> (\<forall>t\<in>set (take 5 ticks). running t \<and> observed_status (mailbox t) = Some 1)"
  let ?pre = "take 5 ticks" and ?rest = "drop 5 ticks"
  have "5 \<le> length ticks" using p by (rule conjunct1)
  then have l: "min (length ticks) 5 = 5" by (rule min_absorb2)
  have b: "\<forall>t\<in>set ?pre. running t \<and> observed_status (mailbox t) \<noteq> None
                         \<and> observed_status (mailbox t) \<noteq> Some 0"
    using p by simp
  have q: "0 + int (length ?pre) \<le> MAX_WAIT_ATTEMPTS" by (simp add: l MAX_WAIT_ATTEMPTS_def)
  have r5: "replicate (length ?pre) (Sleep 100) = (replicate 5 (Sleep 100) :: Message event list)"
    by (simp add: l)
  from wait_for_free_passes[OF b q, of ?rest zero_Message] obtain m where
    "wait_for_free (?pre @ ?rest) 0 zero_Message
       = (case wait_for_free ?rest (0 + int (length ?pre)) m of
            None \<Rightarrow> None
          | Some (a1, m1, r, ev) \<Rightarrow> Some (a1, m1, r, replicate (length ?pre) (Sleep 100) @ ev))"
    by blast
  moreover have "0 + int (length ?pre) = MAX_WAIT_ATTEMPTS" by (simp add: l MAX_WAIT_ATTEMPTS_def)
  ultimately have w: "wait_for_free ticks 0 zero_Message
       = Some (MAX_WAIT_ATTEMPTS, m, ?rest, replicate 5 (Sleep 100))"
    unfolding r5 by (simp add: wait_for_free_at_limit)
  show "ping_exchange currentClientId command ticks
        = (Busy, replicate 5 (Sleep 100) @ [Print ''Server is busy.''], currentClientId, None)"
    unfolding ping_exchange_def w by simp
qed

lemma observed_status_file_of:
  assumes "wf_Message m"
  shows "observed_status (file_of m) = Some (status m)"
proof -
  have l: "length (encode m) = 264" using assms by (simp add: length_encode wf_Message_def)
  have b: "bytes_obtained (file_of m) = sizeof_Message"
    by (simp add: bytes_obtained_def file_of_def sizeof_Message_def l)
  have t: "take sizeof_Message (fd_bytes (file_of m)) = encode m"
    by (simp add: file_of_def sizeof_Message_def l)
  show ?thesis
    unfolding observed_status_def b t decode_encode[OF assms] by (simp add: file_of_def)
qed

lemma wf_zero_with_status: "is_int32 s \<Longrightarrow> wf_Message (zero_Message \<lparr> status := s \<rparr>)"
  by (simp add: wf_Message_def zero_Message_def is_int32_def)

lemma busy_server_gives_up_five_reads:
  "ping_exchange 0 ''ping''
     (replicate 5 \<lparr> running = True, mailbox = file_of (zero_Message \<lparr> status := 1 \<rparr>),
                    elapsed = 0 \<rparr>)
     = (Busy, replicate 5 (Sleep 100) @ [Print ''Server is busy.''], 0, None)"
proof -
  let ?b = "\<lparr> running = True, mailbox = file_of (zero_Message \<lparr> status := 1 \<rparr>), elapsed = 0 \<rparr>"
  have o: "observed_status (file_of (zero_Message \<lparr> status := 1 \<rparr>)) = Some 1"
    using observed_status_file_of[OF wf_zero_with_status[of 1]] by (simp add: is_int32_def)
  have h: "5 \<le> length (replicate 5 ?b)
           \<and> (\<forall>t\<in>set (take 5 (replicate 5 ?b)). running t \<and> observed_status (mailbox t) = Some 1)"
    using o by simp
  from busy_server_gives_up[of "replicate 5 ?b" 0 "''ping''"] h show ?thesis by blast
qed

lemma ping_exchange_sends:
  assumes "wait_for_free ticks 0 zero_Message = Some (a, m0, t # ticks2, ev1)"
    and "a < MAX_WAIT_ATTEMPTS"
  shows "\<exists>more. fst (snd (ping_exchange cid command ticks))
           = ev1 @ Write (request_record cid command)
                     (fst (writeMessage (mailbox t) (request_record cid command))) # more"
    and "fst (ping_exchange cid command ticks) \<noteq> Busy"
proof -
  let ?req = "request_record cid command"
  obtain sent h1 where w: "writeMessage (mailbox t) ?req = (sent, h1)"
    by (cases "writeMessage (mailbox t) ?req")
  have n: "\<not> MAX_WAIT_ATTEMPTS \<le> a" using assms(2) by simp
  show "\<exists>more. fst (snd (ping_exchange cid command ticks))
           = ev1 @ Write ?req (fst (writeMessage (mailbox t) ?req)) # more"
  proof (cases sent)
    case False
    then show ?thesis
      using n by (simp add: ping_exchange_def assms(1) Let_def w)
  next
    case True
    show ?thesis
    proof (cases "await_response ticks2 cid ?req")
      case None
      then show ?thesis
        using n True by (simp add: ping_exchange_def assms(1) Let_def w)
    next
      case (Some r)
      obtain tmo got c m1 ticks3 ev2 where r: "r = (tmo, got, c, m1, ticks3, ev2)"
        by (cases r) auto
      show ?thesis
      proof (cases ticks3)
        case Nil
        then show ?thesis
          using n True by (simp add: ping_exchange_def assms(1) Let_def w Some r)
      next
        case (Cons t3 ticks4)
        obtain ok h3 where w3: "writeMessage (mailbox t3) (free_record m1 c) = (ok, h3)"
          by (cases "writeMessage (mailbox t3) (free_record m1 c)")
        show ?thesis
          using n True by (simp add: ping_exchange_def assms(1) Let_def w Some r Cons w3)
      qed
    qed
  qed
  show "fst (ping_exchange cid command ticks) \<noteq> Busy"
    using n
    by (simp add: ping_exchange_def assms(1) Let_def w split: list.splits option.splits prod.splits)
qed

text \<open>
  \<^bold>\<open>C5.\<close>  The claim has the client give up, report the busy server and write
  nothing whenever the mailbox stays at REQUEST.  The loop of lines 356 to 367 also
  ends when a signal clears \<^verbatim>\<open>running\<close>, and line 369 tests the attempt counter only:
  when fewer than five reads have shown REQUEST and the flag is then found cleared, the
  counter is below the maximum, the turn is not taken as busy, and the next thing the
  client does is to write its REQUEST record over the request that is pending in the
  mailbox.  (The single-mailbox client leaves its turn with \<^verbatim>\<open>if (!running) break;\<close>
  right after its waiting loop, and this client does so after reading the command, on
  line 311; after this loop the test is missing.)
\<close>

theorem shutdown_during_wait_sends_request:
  "length pre < 5
   \<and> (\<forall>t\<in>set pre. running t \<and> observed_status (mailbox t) = Some 1)
   \<and> \<not> running ts
   \<longrightarrow> (\<exists>m. wait_for_free (pre @ ts # tw # rest) 0 zero_Message
               = Some (int (length pre), m, tw # rest, replicate (length pre) (Sleep 100)))
       \<and> int (length pre) < MAX_WAIT_ATTEMPTS
       \<and> fst (ping_exchange cid command (pre @ ts # tw # rest)) \<noteq> Busy
       \<and> (\<exists>more. fst (snd (ping_exchange cid command (pre @ ts # tw # rest)))
             = replicate (length pre) (Sleep 100)
               @ Write (request_record cid command)
                   (fst (writeMessage (mailbox tw) (request_record cid command))) # more)
       \<and> status (request_record cid command) = 1"
proof
  assume p: "length pre < 5
   \<and> (\<forall>t\<in>set pre. running t \<and> observed_status (mailbox t) = Some 1)
   \<and> \<not> running ts"
  then have b: "\<forall>t\<in>set pre. running t \<and> observed_status (mailbox t) \<noteq> None
                     \<and> observed_status (mailbox t) \<noteq> Some 0"
    and ts: "\<not> running ts"
    and k: "int (length pre) < MAX_WAIT_ATTEMPTS"
    by (simp_all add: MAX_WAIT_ATTEMPTS_def)
  have q: "0 + int (length pre) \<le> MAX_WAIT_ATTEMPTS" using k by simp
  from wait_for_free_passes[OF b q, of "ts # tw # rest" zero_Message] obtain m where
    pass: "wait_for_free (pre @ ts # tw # rest) 0 zero_Message
       = (case wait_for_free (ts # tw # rest) (0 + int (length pre)) m of
            None \<Rightarrow> None
          | Some (a1, m1, r, ev) \<Rightarrow> Some (a1, m1, r, replicate (length pre) (Sleep 100) @ ev))"
    by blast
  have k0: "0 + int (length pre) < MAX_WAIT_ATTEMPTS" using k by simp
  have stop: "wait_for_free (ts # tw # rest) (0 + int (length pre)) m
             = Some (0 + int (length pre), m, tw # rest, [])"
    by (rule wait_for_free_stopped[OF k0 ts])
  have w: "wait_for_free (pre @ ts # tw # rest) 0 zero_Message
             = Some (int (length pre), m, tw # rest, replicate (length pre) (Sleep 100))"
    unfolding pass stop by simp
  have r: "status (request_record cid command) = 1"
    by (simp add: request_record_def)
  show "(\<exists>m. wait_for_free (pre @ ts # tw # rest) 0 zero_Message
               = Some (int (length pre), m, tw # rest, replicate (length pre) (Sleep 100)))
       \<and> int (length pre) < MAX_WAIT_ATTEMPTS
       \<and> fst (ping_exchange cid command (pre @ ts # tw # rest)) \<noteq> Busy
       \<and> (\<exists>more. fst (snd (ping_exchange cid command (pre @ ts # tw # rest)))
             = replicate (length pre) (Sleep 100)
               @ Write (request_record cid command)
                   (fst (writeMessage (mailbox tw) (request_record cid command))) # more)
       \<and> status (request_record cid command) = 1"
    using w k r ping_exchange_sends[OF w k, of cid command] by blast
qed

theorem shutdown_during_wait_sends_request_witness:
  "ping_exchange 0 ''ping''
     [\<lparr> running = True, mailbox = file_of (zero_Message \<lparr> status := 1 \<rparr>), elapsed = 0 \<rparr>,
      \<lparr> running = False, mailbox = file_of (zero_Message \<lparr> status := 1 \<rparr>), elapsed = 0 \<rparr>,
      \<lparr> running = False, mailbox = file_of (zero_Message \<lparr> status := 1 \<rparr>), elapsed = 0 \<rparr>,
      \<lparr> running = False, mailbox = file_of (zero_Message \<lparr> status := 1 \<rparr>), elapsed = 0 \<rparr>,
      \<lparr> running = False, mailbox = file_of (zero_Message \<lparr> status := 1 \<rparr>), elapsed = 0 \<rparr>]
     = (Abandoned,
        [Sleep 100, Write (request_record 0 ''ping'') True,
         Write \<lparr> status = 0, client_id = 0, data = replicate 256 (CHR 0x00) \<rparr> True],
        0, Some (file_of zero_Message))
   \<and> fst (ping_exchange 0 ''ping''
       [\<lparr> running = True, mailbox = file_of (zero_Message \<lparr> status := 1 \<rparr>), elapsed = 0 \<rparr>,
        \<lparr> running = False, mailbox = file_of (zero_Message \<lparr> status := 1 \<rparr>), elapsed = 0 \<rparr>,
        \<lparr> running = False, mailbox = file_of (zero_Message \<lparr> status := 1 \<rparr>), elapsed = 0 \<rparr>,
        \<lparr> running = False, mailbox = file_of (zero_Message \<lparr> status := 1 \<rparr>), elapsed = 0 \<rparr>,
        \<lparr> running = False, mailbox = file_of (zero_Message \<lparr> status := 1 \<rparr>), elapsed = 0 \<rparr>])
       \<noteq> Busy
   \<and> status (request_record 0 ''ping'') = 1"
proof -
  let ?b = "\<lparr> running = True, mailbox = file_of (zero_Message \<lparr> status := 1 \<rparr>), elapsed = 0 \<rparr>"
  let ?s = "\<lparr> running = False, mailbox = file_of (zero_Message \<lparr> status := 1 \<rparr>), elapsed = 0 \<rparr>"
  have o: "observed_status (file_of (zero_Message \<lparr> status := 1 \<rparr>)) = Some 1"
    using observed_status_file_of[OF wf_zero_with_status[of 1]] by (simp add: is_int32_def)
  have h: "length [?b] < 5
   \<and> (\<forall>t\<in>set [?b]. running t \<and> observed_status (mailbox t) = Some 1)
   \<and> \<not> running ?s"
    using o by simp
  note T = shutdown_during_wait_sends_request
             [where pre = "[?b]" and ts = ?s and tw = ?s and rest = "[?s, ?s]"
                and cid = 0 and command = "''ping''"]
  have t: "[?b] @ ?s # ?s # [?s, ?s] = [?b, ?s, ?s, ?s, ?s]" by simp
  have nb: "fst (ping_exchange 0 ''ping'' [?b, ?s, ?s, ?s, ?s]) \<noteq> Busy"
    using T[THEN mp, OF h] unfolding t by (elim conjE) assumption
  have st: "status (request_record 0 ''ping'') = 1"
    using T[THEN mp, OF h] by (elim conjE) assumption
  have ev: "ping_exchange 0 ''ping'' [?b, ?s, ?s, ?s, ?s]
     = (Abandoned,
        [Sleep 100, Write (request_record 0 ''ping'') True,
         Write \<lparr> status = 0, client_id = 0, data = replicate 256 (CHR 0x00) \<rparr> True],
        0, Some (file_of zero_Message))"
    by code_simp
  from ev nb st show ?thesis by (intro conjI)
qed















lemma readMessage_simple_cases:
  obtains (failed) m where "simple_observed_status h = None" "readMessage_simple h buf = (False, m)"
  | (read) s m where "simple_observed_status h = Some s" "readMessage_simple h buf = (True, m)"
      "s_status m = s"
proof -
  consider (err) "fd_seek_fails h \<or> fd_read_fails h"
    | (full) "\<not> fd_seek_fails h" "\<not> fd_read_fails h" "260 \<le> length (fd_bytes h)"
    | (empty) "\<not> fd_seek_fails h" "\<not> fd_read_fails h" "fd_bytes h = []"
    | (part) "\<not> fd_seek_fails h" "\<not> fd_read_fails h" "fd_bytes h \<noteq> []" "length (fd_bytes h) < 260"
    by (cases "fd_bytes h = []"; cases "260 \<le> length (fd_bytes h)"; auto)
  then show ?thesis
  proof cases
    case err
    then have "simple_observed_status h = None"
      "readMessage_simple h buf = (False, decode_simple (encode_simple buf))"
      by (auto simp: simple_observed_status_def readMessage_simple_def read_record_def)
    then show ?thesis by (rule failed)
  next
    case full
    then have l: "length (take 260 (fd_bytes h)) = 260" by simp
    have r: "read_record 260 h (encode_simple buf)
               = (True, take 260 (fd_bytes h) @ drop 260 (encode_simple buf))"
      using full(1,2) l unfolding read_record_def Let_def by simp
    have o: "simple_observed_status h = Some (of_le32 (take 4 (fd_bytes h)))"
      using full by (simp add: simple_observed_status_def)
    have s: "s_status (decode_simple (take 260 (fd_bytes h) @ drop 260 (encode_simple buf)))
               = of_le32 (take 4 (fd_bytes h))"
      using full(3) by (simp add: decode_simple_def)
    show ?thesis
      by (rule read[OF o _ s]) (simp add: readMessage_simple_def r)
  next
    case empty
    have r: "read_record 260 h (encode_simple buf) = (True, replicate 260 (CHR 0x00))"
      using empty unfolding read_record_def Let_def by simp
    have o: "simple_observed_status h = Some 0"
      using empty by (simp add: simple_observed_status_def)
    have t: "take 4 (replicate 260 (CHR 0x00)) = replicate 4 (CHR 0x00)" by simp
    have s: "s_status (decode_simple (replicate 260 (CHR 0x00))) = 0"
      unfolding decode_simple_def t by (simp add: of_le32_zeros)
    show ?thesis
      by (rule read[OF o _ s]) (simp add: readMessage_simple_def r)
  next
    case part
    then have t: "take 260 (fd_bytes h) = fd_bytes h" by simp
    have r: "fst (read_record 260 h (encode_simple buf)) = False"
      using part unfolding read_record_def Let_def t by simp
    have o: "simple_observed_status h = None"
      using part by (simp add: simple_observed_status_def)
    obtain bs where "read_record 260 h (encode_simple buf) = (False, bs)"
      using r by (cases "read_record 260 h (encode_simple buf)") auto
    then have "readMessage_simple h buf = (False, decode_simple bs)"
      by (simp add: readMessage_simple_def)
    with o show ?thesis by (rule failed)
  qed
qed

lemma readMessage_simple_client_cases:
  obtains (failed) m lines where "simple_observed_status (mailbox t) = None"
      "readMessage_simple_client t buf = (False, m, lines)"
  | (read) s m where "simple_observed_status (mailbox t) = Some s"
      "readMessage_simple_client t buf = (True, m, [])" "s_status m = s"
proof (cases rule: readMessage_simple_cases[of "mailbox t" buf])
  case (failed m)
  then show ?thesis by (intro that(1)[of m]) (simp_all add: readMessage_simple_client_def)
next
  case (read s m)
  have "\<not> fd_seek_fails (mailbox t)" "\<not> fd_read_fails (mailbox t)"
    using read(1) by (auto simp: simple_observed_status_def split: if_splits)
  then have "readMessage_simple_client t buf = (True, m, [])"
    using read(2) by (simp add: readMessage_simple_client_def)
  with read show ?thesis by (intro that(2)[of s m])
qed



text \<open>While every read fails, the loop of the single-mailbox client goes on.\<close>

lemma simple_await_response_goes_on:
  assumes "\<forall>t\<in>set ticks. running t \<and> simple_observed_status (mailbox t) = None"
  shows "simple_await_response ticks msg = None"
  using assms
proof (induction ticks arbitrary: msg)
  case Nil
  then show ?case by simp
next
  case (Cons t ticks)
  have run: "running t" and f: "simple_observed_status (mailbox t) = None"
    using Cons.prems by simp_all
  show ?case
  proof (cases rule: readMessage_simple_client_cases[of t msg])
    case (failed m0 lines)
    have "simple_await_response ticks m0 = None" using Cons by simp
    then show ?thesis using run failed(2) by simp
  next
    case (read s m0)
    then show ?thesis using f by simp
  qed
qed





end
